theory Spec2Isabelle
  imports Complex_Main "HOL-Library.Word" "HOL-Library.AList"
begin

section \<open>Data model of statsdaemon.go\<close>

text \<open>
  The daemon keeps five process-wide Go maps (counters, gauges, timers, countInactivity,
  sets), applies one parsed packet at a time to them (packetHandler) and periodically
  drains them into a Graphite text buffer (submit and the four process* emitters).

  Conventions of the embedding.
  \<^item> \<open>int64\<close> is \<open>64 word\<close>: addition wraps, \<open>sint\<close> reads the signed value.
  \<^item> A Go map is an association list. The order of the list stands for the order in
    which \<open>range\<close> happens to visit the entries, which Go leaves unspecified; theorems
    quantify over every list, hence over every order. Keys are distinct in a Go map, so
    theorems that count lines assume distinct keys.
  \<^item> A \<open>float64\<close> is the real number it denotes; NaN and the infinities are not
    represented. Every floating-point operation of the source is the exact operation
    followed by rounding to nearest, ties to even, one operation at a time.
  \<^item> A runtime panic (index or slice bounds out of range, failed type assertion) is the
    \<open>Inl\<close> branch of a sum. So is \<open>OutsideModel\<close>, which is not a panic: the timers
    emitter has produced an infinity, or converted to \<open>int\<close> a number that does not fit,
    the program goes on with a value that has no counterpart here, and the model stops.
  \<^item> Logging is not modelled.
\<close>

type_synonym int64 = "64 word"

type_synonym 'v gomap = "(string \<times> 'v) list"

datatype fault = IndexOutOfRange | SliceBoundsOutOfRange | TypeAssertion | OutsideModel

record GaugeData =
  Relative :: bool
  Negative :: bool
  Value :: real

text \<open>\<open>Packet.Value\<close> is an \<open>interface{}\<close> holding one of four dynamic types.\<close>

datatype val = VInt64 int64 | VFloat64 real | VGauge GaugeData | VString string

record Packet =
  Bucket :: string
  Value :: val
  Modifier :: string
  Sampling :: real

record Percentile =
  float :: real
  str :: string

text \<open>The command-line flags the modelled functions read.\<close>

record flags =
  graphiteAddress :: string
  debug :: bool
  persistCountKeys :: int64
  receiveCounter :: string
  percentThreshold :: "Percentile list"
  prefix :: string
  prefixTimers :: string
  prefixGauges :: string

record tables =
  counters :: "int64 gomap"
  gauges :: "real gomap"
  timers :: "real list gomap"
  countInactivity :: "int64 gomap"
  sets :: "string list gomap"

section \<open>Graphite lines and their rendering\<close>

text \<open>
  Every \<open>fmt.Fprintf(buffer, ...)\<close> of the emitters writes one line
  \<open>name value now\<close>. The value is printed with one of three verbs:
  \<open>%d\<close> (an integer), \<open>%f\<close> (Go's default precision, six digits) or \<open>%0.2f\<close>.
\<close>

datatype verb = D int | F real | F2 real

record line =
  name :: string
  arg :: verb
  stamp :: int64

fun dec_nat :: "nat \<Rightarrow> string" where
  "dec_nat n = (if n < 10 then [''0123456789'' ! n]
                else dec_nat (n div 10) @ [''0123456789'' ! (n mod 10)])"

declare dec_nat.simps [simp del]

definition dec_int :: "int \<Rightarrow> string" where
  "dec_int i = (if i < 0 then ''-'' @ dec_nat (nat (- i)) else dec_nat (nat i))"

definition round_half_even :: "real \<Rightarrow> int" where
  "round_half_even x =
     (let f = \<lfloor>x\<rfloor>; r = x - of_int f
      in if r < 1 / 2 then f else if 1 / 2 < r then f + 1
         else if even f then f else f + 1)"

definition pad_zeros :: "nat \<Rightarrow> string \<Rightarrow> string" where
  "pad_zeros w s = replicate (w - length s) (CHR ''0'') @ s"

text \<open>
  \<open>%.<prec>f\<close>: the decimal expansion of the value, correctly rounded (ties to even) to
  \<open>prec\<close> fractional digits.
\<close>

definition format_f :: "nat \<Rightarrow> real \<Rightarrow> string" where
  "format_f prec x =
     (let n = nat (round_half_even (\<bar>x\<bar> * 10 ^ prec))
      in (if x < 0 then ''-'' else '''') @ dec_nat (n div 10 ^ prec) @
         (if prec = 0 then '''' else ''.'' @ pad_zeros prec (dec_nat (n mod 10 ^ prec))))"

fun format_verb :: "verb \<Rightarrow> string" where
  "format_verb (D i) = dec_int i"
| "format_verb (F x) = format_f 6 x"
| "format_verb (F2 x) = format_f 2 x"

definition render :: "line \<Rightarrow> string" where
  "render l = name l @ '' '' @ format_verb (arg l) @ '' '' @ dec_int (sint (stamp l)) @ [CHR 0x0A]"

definition render_buffer :: "line list \<Rightarrow> string" where
  "render_buffer buf = concat (map render buf)"

section \<open>Go maps\<close>

text \<open>Reading a key a Go map does not hold gives the zero value.\<close>

definition lookup0 :: "'v::zero gomap \<Rightarrow> string \<Rightarrow> 'v" where
  "lookup0 m k = (case map_of m k of None \<Rightarrow> 0 | Some v \<Rightarrow> v)"

definition lookup_slice :: "'a list gomap \<Rightarrow> string \<Rightarrow> 'a list" where
  "lookup_slice m k = (case map_of m k of None \<Rightarrow> [] | Some v \<Rightarrow> v)"

section \<open>float32 and float64\<close>

text \<open>
  \<open>round_float p emin\<close> rounds a real to the nearest number with \<open>p\<close> significant bits, ties
  to even, with subnormal numbers below \<open>2^emin\<close>. A float64 result whose magnitude
  reaches \<open>2^1024\<close> is an infinity in Go; \<open>finite64\<close> says that it does not.
\<close>

definition round_float :: "nat \<Rightarrow> int \<Rightarrow> real \<Rightarrow> real" where
  "round_float p emin x =
     (if x = 0 then 0
      else let e = max \<lfloor>log 2 \<bar>x\<bar>\<rfloor> emin;
               ulp = 2 powr real_of_int (e - int p + 1)
           in real_of_int (round_half_even (x / ulp)) * ulp)"

definition float32 :: "real \<Rightarrow> real" where
  "float32 x = round_float 24 (- 126) x"

definition float64 :: "real \<Rightarrow> real" where
  "float64 x = round_float 53 (- 1022) x"

definition trunc :: "real \<Rightarrow> int" where
  "trunc x = (if 0 \<le> x then \<lfloor>x\<rfloor> else \<lceil>x\<rceil>)"

definition finite64 :: "real \<Rightarrow> bool" where
  "finite64 x = (\<bar>x\<bar> < 2 ^ 1024)"

section \<open>The emitters\<close>

subsection \<open>processCounters\<close>

text \<open>
  Both loops only touch the entry they are visiting, so ranging over the map is ranging
  over the list of entries as it stood when the loop began.
\<close>

fun counters_loop :: "int64 \<Rightarrow> (string \<times> int64) list \<Rightarrow> int64 \<times> line list \<times> tables
    \<Rightarrow> int64 \<times> line list \<times> tables" where
  "counters_loop now [] acc = acc"
| "counters_loop now ((bucket, v) # rest) (num, buffer, st) =
     counters_loop now rest
       (num + 1,
        buffer @ [\<lparr>name = bucket, arg = D (sint v), stamp = now\<rparr>],
        st\<lparr>counters := AList.delete bucket (counters st),
           countInactivity := AList.update bucket 0 (countInactivity st)\<rparr>)"

fun inactivity_loop :: "flags \<Rightarrow> int64 \<Rightarrow> (string \<times> int64) list \<Rightarrow> int64 \<times> line list \<times> tables
    \<Rightarrow> int64 \<times> line list \<times> tables" where
  "inactivity_loop cfg now [] acc = acc"
| "inactivity_loop cfg now ((bucket, purgeCount) # rest) (num, buffer, st) =
     (let (num1, buffer1) =
            (if 0 <s purgeCount
             then (num + 1, buffer @ [\<lparr>name = bucket, arg = D 0, stamp = now\<rparr>])
             else (num, buffer));
          ci1 = AList.update bucket (lookup0 (countInactivity st) bucket + 1) (countInactivity st);
          ci2 = (if persistCountKeys cfg <s lookup0 ci1 bucket then AList.delete bucket ci1 else ci1)
      in inactivity_loop cfg now rest (num1, buffer1, st\<lparr>countInactivity := ci2\<rparr>))"

definition processCounters :: "flags \<Rightarrow> line list \<Rightarrow> int64 \<Rightarrow> tables \<Rightarrow> int64 \<times> line list \<times> tables" where
  "processCounters cfg buffer now st =
     (let (num1, buffer1, st1) = counters_loop now (counters st) (0, buffer, st)
      in inactivity_loop cfg now (countInactivity st1) (num1, buffer1, st1))"

subsection \<open>processGauges\<close>

fun gauges_loop :: "int64 \<Rightarrow> (string \<times> real) list \<Rightarrow> int64 \<times> line list \<times> tables
    \<Rightarrow> int64 \<times> line list \<times> tables" where
  "gauges_loop now [] acc = acc"
| "gauges_loop now ((g, c) # rest) (num, buffer, st) =
     gauges_loop now rest
       (num + 1,
        buffer @ [\<lparr>name = g, arg = F c, stamp = now\<rparr>],
        st\<lparr>gauges := AList.delete g (gauges st)\<rparr>)"

definition processGauges :: "line list \<Rightarrow> int64 \<Rightarrow> tables \<Rightarrow> int64 \<times> line list \<times> tables" where
  "processGauges buffer now st = gauges_loop now (gauges st) (0, buffer, st)"

subsection \<open>processSets\<close>

fun sets_loop :: "int64 \<Rightarrow> (string \<times> string list) list \<Rightarrow> line list \<times> tables
    \<Rightarrow> line list \<times> tables" where
  "sets_loop now [] acc = acc"
| "sets_loop now ((bucket, set') # rest) (buffer, st) =
     sets_loop now rest
       (buffer @ [\<lparr>name = bucket, arg = D (int (length (remdups set'))), stamp = now\<rparr>],
        st\<lparr>sets := AList.delete bucket (sets st)\<rparr>)"

definition processSets :: "line list \<Rightarrow> int64 \<Rightarrow> tables \<Rightarrow> int64 \<times> line list \<times> tables" where
  "processSets buffer now st =
     (let (buffer1, st1) = sets_loop now (sets st) (buffer, st)
      in (of_nat (length (sets st)), buffer1, st1))"

subsection \<open>processTimers\<close>

text \<open>Indexing a slice with an \<open>int\<close>: out of range is a runtime panic.\<close>

definition index :: "'a list \<Rightarrow> int \<Rightarrow> fault + 'a" where
  "index t i = (if 0 \<le> i \<and> i < int (length t) then Inr (t ! nat i) else Inl IndexOutOfRange)"

text \<open>
  \<open>rank\<close> is \<open>(abs / 100.0) * float64(count)\<close>, with \<open>abs\<close> the percentile or, for a
  negative one, \<open>100 + pct.float\<close>. \<open>indexOfPerc\<close> is
  \<open>int(math.Floor(rank + 0.5))\<close>, less one for a non-negative percentile.
  Every operation is rounded to float64 on its own, as on amd64, where the compiler does not
  fuse a product with the sum that follows it.
  The conversion to \<open>int\<close> (64 bits) is left to the implementation when the rank is
  an infinity or its floor does not fit: \<open>rank_converts\<close> says that neither is the case.
\<close>

definition rank :: "real \<Rightarrow> nat \<Rightarrow> real" where
  "rank p count =
     (let abs = (if 0 \<le> p then p else float64 (100 + p))
      in float64 (float64 (abs / 100) * float64 (real count)))"

definition indexOfPerc :: "real \<Rightarrow> nat \<Rightarrow> int" where
  "indexOfPerc p count =
     (let i = \<lfloor>float64 (rank p count + 1 / 2)\<rfloor>
      in if 0 \<le> p then i - 1 else i)"

definition rank_converts :: "real \<Rightarrow> nat \<Rightarrow> bool" where
  "rank_converts p count =
     (finite64 (rank p count) \<and>
      - (2 ^ 63) \<le> \<lfloor>float64 (rank p count + 1 / 2)\<rfloor> \<and>
      \<lfloor>float64 (rank p count + 1 / 2)\<rfloor> < 2 ^ 63)"

text \<open>
  The loop over the percentiles of one bucket. \<open>maxAtThreshold\<close> is declared outside the
  loop and keeps its value from one percentile to the next.
\<close>

fun pctls_loop :: "int64 \<Rightarrow> string \<Rightarrow> real list \<Rightarrow> Percentile list \<Rightarrow> real \<times> line list
    \<Rightarrow> fault + real \<times> line list" where
  "pctls_loop now u t [] acc = Inr acc"
| "pctls_loop now u t (pct # rest) (maxAtThreshold, buffer) =
     (case (if 1 < length t
            then if rank_converts (float pct) (length t)
                 then index t (indexOfPerc (float pct) (length t))
                 else Inl OutsideModel
            else Inr maxAtThreshold) of
        Inl e \<Rightarrow> Inl e
      | Inr m \<Rightarrow>
          (if 0 \<le> float pct
           then pctls_loop now u t rest
                  (m, buffer @ [\<lparr>name = u @ ''.upper_'' @ str pct, arg = F2 m, stamp = now\<rparr>])
           else (case str pct of
                   [] \<Rightarrow> Inl SliceBoundsOutOfRange
                 | c # pctstr \<Rightarrow>
                     pctls_loop now u t rest
                       (m, buffer @ [\<lparr>name = u @ ''.lower_'' @ pctstr, arg = F2 m, stamp = now\<rparr>]))))"

text \<open>The loop \<open>sum += value\<close> over the sorted samples.\<close>

fun sum_loop :: "real \<Rightarrow> real list \<Rightarrow> fault + real" where
  "sum_loop s [] = Inr s"
| "sum_loop s (v # rest) =
     (if finite64 (float64 (s + v)) then sum_loop (float64 (s + v)) rest else Inl OutsideModel)"

text \<open>
  The body of the loop over the timer buckets, for one bucket \<open>u\<close> with samples \<open>t0\<close>:
  the lines it appends to the buffer. \<open>sort.Sort\<close> with \<open>Less = (<)\<close> is \<open>sort\<close>.
\<close>

definition timer_bucket :: "int64 \<Rightarrow> Percentile list \<Rightarrow> string \<Rightarrow> real list \<Rightarrow> line list
    \<Rightarrow> fault + line list" where
  "timer_bucket now pctls u t0 buffer =
     (let t = sort t0 in
      case index t 0 of Inl e \<Rightarrow> Inl e | Inr min' \<Rightarrow>
      case index t (int (length t) - 1) of Inl e \<Rightarrow> Inl e | Inr max' \<Rightarrow>
      case index t (int (length t div 2)) of Inl e \<Rightarrow> Inl e | Inr median \<Rightarrow>
      case sum_loop 0 t of Inl e \<Rightarrow> Inl e | Inr sum1 \<Rightarrow>
      let count = length t;
          mean = float64 (sum1 / float64 (real (length t)))
      in case pctls_loop now u t pctls (max', buffer) of Inl e \<Rightarrow> Inl e
         | Inr (m, buffer1) \<Rightarrow>
             Inr (buffer1 @
               [\<lparr>name = u @ ''.mean'', arg = F2 mean, stamp = now\<rparr>,
                \<lparr>name = u @ ''.median'', arg = F2 median, stamp = now\<rparr>,
                \<lparr>name = u @ ''.upper'', arg = F2 max', stamp = now\<rparr>,
                \<lparr>name = u @ ''.lower'', arg = F2 min', stamp = now\<rparr>,
                \<lparr>name = u @ ''.count'', arg = D (int count), stamp = now\<rparr>]))"

fun timers_loop :: "int64 \<Rightarrow> Percentile list \<Rightarrow> (string \<times> real list) list
    \<Rightarrow> int64 \<times> line list \<times> tables \<Rightarrow> fault + int64 \<times> line list \<times> tables" where
  "timers_loop now pctls [] acc = Inr acc"
| "timers_loop now pctls ((u, t) # rest) (num, buffer, st) =
     (case timer_bucket now pctls u t buffer of
        Inl e \<Rightarrow> Inl e
      | Inr buffer1 \<Rightarrow>
          timers_loop now pctls rest
            (num + 1, buffer1, st\<lparr>timers := AList.delete u (timers st)\<rparr>))"

definition processTimers :: "line list \<Rightarrow> int64 \<Rightarrow> Percentile list \<Rightarrow> tables
    \<Rightarrow> fault + int64 \<times> line list \<times> tables" where
  "processTimers buffer now pctls st = timers_loop now pctls (timers st) (0, buffer, st)"

section \<open>submit\<close>

text \<open>
  What the network does is an input of the model: the error of \<open>net.Dial\<close>, of
  \<open>SetDeadline\<close> and of \<open>Write\<close>, if any, as the text \<open>fmt\<close> prints for it (for
  \<open>SetDeadline\<close>, whose format has no verb, the \<open>type=value\<close> of the surplus argument).
  \<open>now\<close> is \<open>time.Now().Unix()\<close>.
  The result is the returned error (\<open>None\<close> is \<open>nil\<close>), the bytes handed to
  \<open>client.Write\<close> if it was called, and the tables afterwards.
\<close>

record network =
  dial_err :: "string option"
  deadline_err :: "string option"
  write_err :: "string option"

definition emit_all :: "flags \<Rightarrow> int64 \<Rightarrow> tables \<Rightarrow> fault + int64 \<times> line list \<times> tables" where
  "emit_all cfg now st =
     (let (n1, b1, st1) = processCounters cfg [] now st;
          (n2, b2, st2) = processGauges b1 now st1
      in case processTimers b2 now (percentThreshold cfg) st2 of
           Inl e \<Rightarrow> Inl e
         | Inr (n3, b3, st3) \<Rightarrow>
             (let (n4, b4, st4) = processSets b3 now st3
              in Inr (n1 + n2 + n3 + n4, b4, st4)))"

definition submit :: "flags \<Rightarrow> network \<Rightarrow> int64 \<Rightarrow> tables
    \<Rightarrow> fault + string option \<times> string option \<times> tables" where
  "submit cfg net now st =
     (if graphiteAddress cfg = ''-'' then Inr (None, None, st)
      else case dial_err net of
        Some err \<Rightarrow>
          (let errmsg = ''dialing '' @ graphiteAddress cfg @ '' failed - '' @ err
           in if debug cfg
              then (case emit_all cfg now st of
                      Inl e \<Rightarrow> Inl e
                    | Inr (num, buffer, st1) \<Rightarrow> Inr (Some errmsg, None, st1))
              else Inr (Some errmsg, None, st))
      | None \<Rightarrow>
          (case deadline_err net of
             Some err \<Rightarrow> Inr (Some (''could not set deadline:'' @ ''%!(EXTRA '' @ err @ '')''), None, st)
           | None \<Rightarrow>
               (case emit_all cfg now st of
                  Inl e \<Rightarrow> Inl e
                | Inr (num, buffer, st1) \<Rightarrow>
                    if num = 0 then Inr (None, None, st1)
                    else (case write_err net of
                            Some err \<Rightarrow>
                              Inr (Some (''failed to write stats - '' @ err),
                                   Some (render_buffer buffer), st1)
                          | None \<Rightarrow> Inr (None, Some (render_buffer buffer), st1)))))"

section \<open>packetHandler\<close>

subsection \<open>The counter increment\<close>

text \<open>
  A counter packet adds \<open>int64(float64(v) * float64(1/s.Sampling))\<close>: \<open>float64(v)\<close>
  rounds the integer to 53 significant bits, \<open>1/s.Sampling\<close> is a float32 division (an
  infinity from \<open>2^128\<close>), the product is rounded to float64, and the conversion to
  \<open>int64\<close> truncates towards zero. When the float64 is not finite or not in the range
  of \<open>int64\<close>, Go leaves the result of the conversion to the implementation: it is the
  parameter \<open>oor\<close>.
\<close>

definition counter_delta :: "(int64 \<Rightarrow> real \<Rightarrow> int64) \<Rightarrow> int64 \<Rightarrow> real \<Rightarrow> int64" where
  "counter_delta oor v sampling =
     (if sampling = 0 then oor v sampling
      else let q = float32 (1 / sampling)
           in if 2 ^ 128 \<le> \<bar>q\<bar> then oor v sampling
              else let i = trunc (float64 (float64 (real_of_int (sint v)) * q))
                   in if - (2 ^ 63) \<le> i \<and> i < 2 ^ 63 then word_of_int i
                      else oor v sampling)"

subsection \<open>Applying one packet\<close>

definition count_received :: "flags \<Rightarrow> tables \<Rightarrow> tables" where
  "count_received cfg st =
     (if receiveCounter cfg \<noteq> []
      then let c1 = (case map_of (counters st) (receiveCounter cfg) of
                       None \<Rightarrow> AList.update (receiveCounter cfg) 0 (counters st)
                     | Some v \<Rightarrow> if v <s 0 then AList.update (receiveCounter cfg) 0 (counters st)
                                else counters st)
           in st\<lparr>counters := AList.update (receiveCounter cfg) (lookup0 c1 (receiveCounter cfg) + 1) c1\<rparr>
      else st)"

text \<open>
  \<open>math.MaxUint64\<close> is an untyped constant; as a float64 operand it is the nearest
  float64, \<open>2^64\<close>. A gauge that an addition or subtraction would carry to \<open>2^1024\<close>
  or beyond is an infinity in Go; here it keeps the rounded number.
\<close>

definition MaxUint64 :: real where
  "MaxUint64 = 2 ^ 64"

definition apply_gauge :: "GaugeData \<Rightarrow> real \<Rightarrow> real" where
  "apply_gauge gaugeData gaugeValue =
     (if Relative gaugeData
      then if Negative gaugeData
           then if GaugeData.Value gaugeData > gaugeValue then 0
                else float64 (gaugeValue - GaugeData.Value gaugeData)
           else if GaugeData.Value gaugeData > float64 (MaxUint64 - gaugeValue) then MaxUint64
                else float64 (gaugeValue + GaugeData.Value gaugeData)
      else GaugeData.Value gaugeData)"

definition packetHandler :: "flags \<Rightarrow> (int64 \<Rightarrow> real \<Rightarrow> int64) \<Rightarrow> Packet \<Rightarrow> tables \<Rightarrow> fault + tables" where
  "packetHandler cfg oor s st0 =
     (let st = count_received cfg st0 in
      if Modifier s = ''ms'' then
        (case Packet.Value s of
           VFloat64 x \<Rightarrow>
             Inr (st\<lparr>timers := AList.update (Bucket s) (lookup_slice (timers st) (Bucket s) @ [x]) (timers st)\<rparr>)
         | _ \<Rightarrow> Inl TypeAssertion)
      else if Modifier s = ''g'' then
        (case Packet.Value s of
           VGauge gaugeData \<Rightarrow>
             Inr (st\<lparr>gauges := AList.update (Bucket s)
                          (apply_gauge gaugeData (lookup0 (gauges st) (Bucket s))) (gauges st)\<rparr>)
         | _ \<Rightarrow> Inl TypeAssertion)
      else if Modifier s = ''c'' then
        (case Packet.Value s of
           VInt64 v \<Rightarrow>
             Inr (st\<lparr>counters := AList.update (Bucket s)
                          (lookup0 (counters st) (Bucket s) + counter_delta oor v (Sampling s)) (counters st)\<rparr>)
         | _ \<Rightarrow> Inl TypeAssertion)
      else if Modifier s = ''s'' then
        (case Packet.Value s of
           VString x \<Rightarrow>
             Inr (st\<lparr>sets := AList.update (Bucket s) (lookup_slice (sets st) (Bucket s) @ [x]) (sets st)\<rparr>)
         | _ \<Rightarrow> Inl TypeAssertion)
      else Inr st)"

subsection \<open>The aggregator loop, seen from the counters\<close>

text \<open>
  \<open>monitor\<close> interleaves packets from the \<open>In\<close> channel with flushes. A run is a list of
  these; it yields, for every flush, the lines \<open>processCounters\<close> wrote. The other three
  emitters neither read nor write \<open>counters\<close> and \<open>countInactivity\<close>.
\<close>

datatype action = Apply Packet | Flush int64

fun run :: "flags \<Rightarrow> (int64 \<Rightarrow> real \<Rightarrow> int64) \<Rightarrow> action list \<Rightarrow> tables
    \<Rightarrow> fault + line list list \<times> tables" where
  "run cfg oor [] st = Inr ([], st)"
| "run cfg oor (Apply s # acts) st =
     (case packetHandler cfg oor s st of
        Inl e \<Rightarrow> Inl e
      | Inr st1 \<Rightarrow> run cfg oor acts st1)"
| "run cfg oor (Flush now # acts) st =
     (case processCounters cfg [] now st of
        (num, buffer, st1) \<Rightarrow>
          (case run cfg oor acts st1 of
             Inl e \<Rightarrow> Inl e
           | Inr (outs, st2) \<Rightarrow> Inr (buffer # outs, st2)))"

section \<open>Reading the output\<close>

text \<open>The lines of a buffer that carry a given name.\<close>

definition lines_for :: "string \<Rightarrow> line list \<Rightarrow> line list" where
  "lines_for b buffer = filter (\<lambda>l. name l = b) buffer"

text \<open>
  What the second loop of processCounters does to the ticker of one bucket: one more, and
  the entry is deleted once the ticker exceeds persistCountKeys.
\<close>

definition tick :: "flags \<Rightarrow> int64 \<Rightarrow> int64 option" where
  "tick cfg purgeCount =
     (if persistCountKeys cfg <s purgeCount + 1 then None else Some (purgeCount + 1))"

text \<open>A packet that writes to the counter of bucket \<open>b\<close>.\<close>

definition counter_event :: "flags \<Rightarrow> string \<Rightarrow> Packet \<Rightarrow> bool" where
  "counter_event cfg b s =
     ((Modifier s = ''c'' \<and> Bucket s = b) \<or> (receiveCounter cfg = b \<and> b \<noteq> []))"

text \<open>
  A packet whose \<open>Value\<close> has the dynamic type its \<open>Modifier\<close> makes packetHandler
  assert.
\<close>

definition well_typed :: "Packet \<Rightarrow> bool" where
  "well_typed s =
     (if Modifier s = ''ms'' then (case Packet.Value s of VFloat64 x \<Rightarrow> True | _ \<Rightarrow> False)
      else if Modifier s = ''g'' then (case Packet.Value s of VGauge x \<Rightarrow> True | _ \<Rightarrow> False)
      else if Modifier s = ''c'' then (case Packet.Value s of VInt64 x \<Rightarrow> True | _ \<Rightarrow> False)
      else if Modifier s = ''s'' then (case Packet.Value s of VString x \<Rightarrow> True | _ \<Rightarrow> False)
      else True)"

fun flush_times :: "action list \<Rightarrow> int64 list" where
  "flush_times [] = []"
| "flush_times (Apply s # acts) = flush_times acts"
| "flush_times (Flush now # acts) = now # flush_times acts"

fun applied :: "action list \<Rightarrow> Packet list" where
  "applied [] = []"
| "applied (Apply s # acts) = s # applied acts"
| "applied (Flush now # acts) = applied acts"

text \<open>
  The ticker of a quiet bucket: \<open>r\<close> zero lines are still to come when the entry is
  absent and \<open>r = 0\<close>, or when it holds \<open>persistCountKeys + 1 - r\<close> with \<open>r > 0\<close>.
\<close>

definition zeros_left :: "flags \<Rightarrow> tables \<Rightarrow> string \<Rightarrow> nat \<Rightarrow> bool" where
  "zeros_left cfg st b r =
     (case map_of (countInactivity st) b of
        None \<Rightarrow> r = 0
      | Some c \<Rightarrow> 0 < r \<and> 1 \<le> sint c \<and> sint c = sint (persistCountKeys cfg) + 1 - int r)"

text \<open>The counter packets of bucket \<open>b\<close> in a list of packets: value and sampling rate.\<close>

fun counter_events :: "string \<Rightarrow> Packet list \<Rightarrow> (int64 \<times> real) list" where
  "counter_events b [] = []"
| "counter_events b (s # ps) =
     (if Modifier s = ''c'' \<and> Bucket s = b
      then (case Packet.Value s of VInt64 v \<Rightarrow> [(v, Sampling s)] | _ \<Rightarrow> [])
      else []) @ counter_events b ps"

text \<open>The defaults of the flags.\<close>

definition default_flags :: flags where
  "default_flags =
     \<lparr>graphiteAddress = ''127.0.0.1:2003'', debug = False, persistCountKeys = 60,
      receiveCounter = [], percentThreshold = [], prefix = ''stats.'',
      prefixTimers = ''timers.'', prefixGauges = ''gauges.''\<rparr>"

text \<open>
  On amd64 the conversion instruction gives the minimum \<open>int64\<close> for every float64 it
  cannot convert.
\<close>

definition amd64 :: "int64 \<Rightarrow> real \<Rightarrow> int64" where
  "amd64 v sampling = 0x8000000000000000"

definition empty_tables :: tables where
  "empty_tables = \<lparr>counters = [], gauges = [], timers = [], countInactivity = [], sets = []\<rparr>"

text \<open>
  The packet of a relative-negative gauge line \<open>name:-d|g\<close> for bucket \<open>b\<close>: the magnitude
  \<open>d\<close> is what ParseFloat reads after the sign.
\<close>

definition gauge_sub :: "string \<Rightarrow> real \<Rightarrow> Packet" where
  "gauge_sub b d =
     \<lparr>Bucket = b,
      Value = VGauge \<lparr>Relative = True, Negative = True, GaugeData.Value = d\<rparr>,
      Modifier = ''g'', Sampling = 1\<rparr>"

text \<open>
  A percentile is in range for a sorted sample list when the emitter's accesses for it do
  not stop the model: the rank converts, the index is one of the slice, and \<open>pct.str[1:]\<close>
  exists for a negative percentile.
\<close>

definition pctl_in_range :: "real list \<Rightarrow> Percentile \<Rightarrow> bool" where
  "pctl_in_range t pct =
     ((1 < length t \<longrightarrow>
         rank_converts (float pct) (length t) \<and>
         0 \<le> indexOfPerc (float pct) (length t) \<and>
         indexOfPerc (float pct) (length t) < int (length t))
      \<and> (float pct < 0 \<longrightarrow> str pct \<noteq> []))"

text \<open>The float64 sum of a list, added from the left, and whether it stays finite.\<close>

definition float_sum :: "real list \<Rightarrow> real" where
  "float_sum t = foldl (\<lambda>s v. float64 (s + v)) 0 t"

fun sums_finite :: "real \<Rightarrow> real list \<Rightarrow> bool" where
  "sums_finite s [] = True"
| "sums_finite s (v # rest) = (finite64 (float64 (s + v)) \<and> sums_finite (float64 (s + v)) rest)"

text \<open>
  A bucket the emitter gets through: it has a sample, its running sum stays finite and
  every configured percentile is in range.
\<close>

definition bucket_passes :: "Percentile list \<Rightarrow> real list \<Rightarrow> bool" where
  "bucket_passes pctls t0 =
     (t0 \<noteq> [] \<and> sums_finite 0 (sort t0) \<and> (\<forall>pct\<in>set pctls. pctl_in_range (sort t0) pct))"

text \<open>What one bucket adds to the buffer then, written as a list.\<close>

definition percentile_line :: "int64 \<Rightarrow> string \<Rightarrow> real list \<Rightarrow> Percentile \<Rightarrow> line" where
  "percentile_line now u t pct =
     \<lparr>name = u @ (if 0 \<le> float pct then ''.upper_'' @ str pct else ''.lower_'' @ tl (str pct)),
      arg = F2 (if 1 < length t then t ! nat (indexOfPerc (float pct) (length t)) else last t),
      stamp = now\<rparr>"

definition summary_lines :: "int64 \<Rightarrow> string \<Rightarrow> real list \<Rightarrow> line list" where
  "summary_lines now u t0 =
     [\<lparr>name = u @ ''.mean'',
       arg = F2 (float64 (float_sum (sort t0) / float64 (real (length t0)))), stamp = now\<rparr>,
      \<lparr>name = u @ ''.median'', arg = F2 (sort t0 ! (length t0 div 2)), stamp = now\<rparr>,
      \<lparr>name = u @ ''.upper'', arg = F2 (Max (set t0)), stamp = now\<rparr>,
      \<lparr>name = u @ ''.lower'', arg = F2 (Min (set t0)), stamp = now\<rparr>,
      \<lparr>name = u @ ''.count'', arg = D (int (length t0)), stamp = now\<rparr>]"

definition bucket_lines :: "int64 \<Rightarrow> Percentile list \<Rightarrow> string \<Rightarrow> real list \<Rightarrow> line list" where
  "bucket_lines now pctls u t0 =
     map (percentile_line now u (sort t0)) pctls @ summary_lines now u t0"

section \<open>parseMessage\<close>

text \<open>
  \<open>strconv.ParseInt(s, 10, 64)\<close>: an optional sign, then one or more decimal digits; an
  error when the value does not fit in an \<open>int64\<close>.
\<close>

fun digit_value :: "char \<Rightarrow> nat option" where
  "digit_value c =
     (if 48 \<le> (of_char c :: nat) \<and> (of_char c :: nat) \<le> 57 then Some (of_char c - 48) else None)"

fun digits_value :: "nat \<Rightarrow> string \<Rightarrow> nat option" where
  "digits_value acc [] = Some acc"
| "digits_value acc (c # cs) =
     (case digit_value c of None \<Rightarrow> None | Some d \<Rightarrow> digits_value (10 * acc + d) cs)"

definition signed_decimal :: "string \<Rightarrow> int option" where
  "signed_decimal s =
     (case s of
        [] \<Rightarrow> None
      | c # cs \<Rightarrow>
          if c = CHR ''-'' then (if cs = [] then None else map_option (\<lambda>n. - int n) (digits_value 0 cs))
          else if c = CHR ''+'' then (if cs = [] then None else map_option int (digits_value 0 cs))
          else map_option int (digits_value 0 s))"

definition ParseInt :: "string \<Rightarrow> int64 option" where
  "ParseInt s =
     (case signed_decimal s of
        None \<Rightarrow> None
      | Some i \<Rightarrow> if - (2 ^ 63) \<le> i \<and> i < 2 ^ 63 then Some (word_of_int i) else None)"

text \<open>
  \<open>strconv.ParseFloat\<close> is a parameter of the model, once for 64 and once for 32 bits:
  \<open>None\<close> is an error. Texts that it reads as NaN or an infinity have no value here.
  \<open>decimal_float\<close> is its restriction to signed decimal integers of at most seven
  digits, which both float types hold exactly; it serves to run examples.
\<close>

record strconv =
  ParseFloat64 :: "string \<Rightarrow> real option"
  ParseFloat32 :: "string \<Rightarrow> real option"

definition decimal_float :: "string \<Rightarrow> real option" where
  "decimal_float s =
     (case signed_decimal s of
        None \<Rightarrow> None
      | Some i \<Rightarrow> if \<bar>i\<bar> < 10 ^ 7 then Some (real_of_int i) else None)"

definition decimal_strconv :: strconv where
  "decimal_strconv = \<lparr>ParseFloat64 = decimal_float, ParseFloat32 = decimal_float\<rparr>"

text \<open>\<open>bytes.Split(data, "\n")\<close> and \<open>bytes.IndexByte\<close>.\<close>

fun split_lines :: "string \<Rightarrow> string list" where
  "split_lines [] = [[]]"
| "split_lines (c # cs) =
     (if c = CHR 0x0A then [] # split_lines cs
      else (case split_lines cs of l # ls \<Rightarrow> (c # l) # ls | [] \<Rightarrow> [[c]]))"

fun IndexByte :: "string \<Rightarrow> char \<Rightarrow> nat option" where
  "IndexByte [] c = None"
| "IndexByte (x # xs) c = (if x = c then Some 0 else map_option Suc (IndexByte xs c))"

text \<open>
  \<open>string(b)\<close> for a byte \<open>b\<close> is the UTF-8 encoding of the code point \<open>b\<close>: the byte
  itself below 128, two bytes from 128 on.
\<close>

definition string_of_byte :: "char \<Rightarrow> string" where
  "string_of_byte c =
     (if (of_char c :: nat) < 128 then [c]
      else [char_of (192 + (of_char c :: nat) div 64), char_of (128 + (of_char c :: nat) mod 64)])"

text \<open>
  One non-empty line. \<open>Inr None\<close> is a line that is skipped (\<open>continue\<close>),
  \<open>Inr (Some p)\<close> a packet appended to the output. The three parts follow the source
  from top to bottom: the sampling rate and the packet, the value, the name and the type.
\<close>

definition make_packet :: "strconv \<Rightarrow> string \<Rightarrow> string \<Rightarrow> val \<Rightarrow> string \<Rightarrow> string \<Rightarrow> Packet" where
  "make_packet sc prefixToAdd name' v mtypeStr input =
     (let sampleRate =
            (if 0 < length input \<and> take 2 input = ''|@''
             then (case ParseFloat32 sc (drop 2 input) of Some rate \<Rightarrow> rate | None \<Rightarrow> 1)
             else 1)
      in \<lparr>Bucket = prefixToAdd @ name', Value = v, Modifier = mtypeStr, Sampling = sampleRate\<rparr>)"

definition parse_value :: "flags \<Rightarrow> strconv \<Rightarrow> string \<Rightarrow> string \<Rightarrow> string \<Rightarrow> string \<Rightarrow> string
    \<Rightarrow> fault + Packet option" where
  "parse_value cfg sc name' val' mtypeStr prefixToAdd input =
     (if hd mtypeStr = CHR ''c'' then
        (case ParseInt val' of
           None \<Rightarrow> Inr None
         | Some v \<Rightarrow> Inr (Some (make_packet sc prefixToAdd name' (VInt64 v) mtypeStr input)))
      else if hd mtypeStr = CHR ''g'' then
        (case val' of
           [] \<Rightarrow> Inl IndexOutOfRange
         | c # rest \<Rightarrow>
             (let (relative, negative, stringToParse) =
                    (if c = CHR ''+'' \<or> c = CHR ''-'' then (True, c = CHR ''-'', rest)
                     else (False, False, val'))
              in case ParseFloat64 sc stringToParse of
                   None \<Rightarrow> Inr None
                 | Some gaugeValue \<Rightarrow>
                     Inr (Some (make_packet sc (prefix cfg @ prefixGauges cfg) name'
                            (VGauge \<lparr>Relative = relative, Negative = negative,
                                     GaugeData.Value = gaugeValue\<rparr>)
                            mtypeStr input))))
      else if hd mtypeStr = CHR ''s'' then
        Inr (Some (make_packet sc prefixToAdd name' (VString val') mtypeStr input))
      else
        (case ParseFloat64 sc val' of
           None \<Rightarrow> Inr None
         | Some x \<Rightarrow> Inr (Some (make_packet sc prefixToAdd name' (VFloat64 x) mtypeStr input))))"

definition parse_line :: "flags \<Rightarrow> strconv \<Rightarrow> string \<Rightarrow> fault + Packet option" where
  "parse_line cfg sc line' =
     (case IndexByte line' (CHR '':'') of
        None \<Rightarrow> Inr None
      | Some index1 \<Rightarrow>
          if int index1 = int (length line') - 1 then Inr None
          else
            (let name' = take index1 line';
                 input = drop (index1 + 1) line'
             in case IndexByte input (CHR ''|'') of
                  None \<Rightarrow> Inr None
                | Some index2 \<Rightarrow>
                    if int index2 = int (length input) - 1 then Inr None
                    else
                      (let val' = take index2 input;
                           index3 = index2 + 1
                       in if input ! index3 = CHR ''m'' then
                            (if length input \<le> index3 + 1 \<or> input ! (index3 + 1) \<noteq> CHR ''s''
                             then Inr None
                             else parse_value cfg sc name' val' ''ms''
                                    (prefix cfg @ prefixTimers cfg) (drop (index3 + 2) input))
                          else parse_value cfg sc name' val' (string_of_byte (input ! index3))
                                 (prefix cfg) (drop (index3 + 1) input))))"

fun parse_lines :: "flags \<Rightarrow> strconv \<Rightarrow> string list \<Rightarrow> fault + Packet list" where
  "parse_lines cfg sc [] = Inr []"
| "parse_lines cfg sc (line' # rest) =
     (if length line' = 0 then parse_lines cfg sc rest
      else case parse_line cfg sc line' of
             Inl e \<Rightarrow> Inl e
           | Inr None \<Rightarrow> parse_lines cfg sc rest
           | Inr (Some packet) \<Rightarrow>
               (case parse_lines cfg sc rest of
                  Inl e \<Rightarrow> Inl e
                | Inr output \<Rightarrow> Inr (packet # output)))"

definition parseMessage :: "flags \<Rightarrow> strconv \<Rightarrow> string \<Rightarrow> fault + Packet list" where
  "parseMessage cfg sc data = parse_lines cfg sc (split_lines data)"

section \<open>Evaluating the rendering\<close>

lemma dec_nat_0 [simp]: "dec_nat 0 = ''0''"
  by (subst dec_nat.simps) simp

lemma dec_nat_1 [simp]: "dec_nat 1 = ''1''" "dec_nat (Suc 0) = ''1''"
  by (subst dec_nat.simps, simp)+

lemma dec_nat_numeral [simp]:
  "dec_nat (numeral k) =
     (if (numeral k :: nat) < 10 then [''0123456789'' ! numeral k]
      else dec_nat (numeral k div 10) @ [''0123456789'' ! (numeral k mod 10)])"
  by (subst dec_nat.simps) simp

lemma replicate_numeral_unfold [simp]:
  "replicate (numeral k) x = x # replicate (pred_numeral k) x"
  by (simp add: numeral_eq_Suc)

lemmas render_eval = render_def render_buffer_def format_f_def round_half_even_def
  dec_int_def pad_zeros_def

lemma dec_nat_digits: "set (dec_nat n) \<subseteq> set ''0123456789''"
proof (induction n rule: dec_nat.induct)
  case (1 n)
  have d: "\<And>k. k < 10 \<Longrightarrow> ''0123456789'' ! k \<in> set ''0123456789''"
    by (rule nth_mem) simp
  show ?case
  proof (cases "n < 10")
    case True
    then show ?thesis using d [of n] by (subst dec_nat.simps) simp
  next
    case False
    have "n mod 10 < 10" by simp
    from d [OF this] 1 [OF False] False show ?thesis
      by (subst dec_nat.simps) simp
  qed
qed

lemma dec_nat_length: "0 < k \<Longrightarrow> n < 10 ^ k \<Longrightarrow> length (dec_nat n) \<le> k"
proof (induction n arbitrary: k rule: dec_nat.induct)
  case (1 n)
  show ?case
  proof (cases "n < 10")
    case True
    then show ?thesis using 1(2) by (subst dec_nat.simps) simp
  next
    case False
    then obtain j where k: "k = Suc j" and j: "0 < j"
      using 1(2,3) by (cases k; cases "k - 1") auto
    have "n div 10 < 10 ^ j" using 1(3) k by (simp add: less_mult_imp_div_less mult.commute)
    from 1(1) [OF False j this] False k show ?thesis
      by (subst dec_nat.simps) simp
  qed
qed

lemma pad_zeros_length: "length s \<le> w \<Longrightarrow> length (pad_zeros w s) = w"
  by (simp add: pad_zeros_def)

lemma format_f_6_shape:
  "\<exists>ip fp. format_f 6 x = ip @ ''.'' @ fp \<and> length fp = 6 \<and> set fp \<subseteq> set ''0123456789''
      \<and> CHR ''.'' \<notin> set ip"
proof -
  define n where "n = nat (round_half_even (\<bar>x\<bar> * 10 ^ 6))"
  let ?ip = "(if x < 0 then ''-'' else '''') @ dec_nat (n div 10 ^ 6)"
  let ?fp = "pad_zeros 6 (dec_nat (n mod 10 ^ 6))"
  have "length (dec_nat (n mod 10 ^ 6)) \<le> 6"
    by (rule dec_nat_length) simp_all
  then have l: "length ?fp = 6" by (rule pad_zeros_length)
  have s: "set ?fp \<subseteq> set ''0123456789''"
    using dec_nat_digits [of "n mod 10 ^ 6"] by (auto simp: pad_zeros_def)
  have i: "CHR ''.'' \<notin> set ?ip"
    using dec_nat_digits [of "n div 10 ^ 6"] by auto
  have "format_f 6 x = ?ip @ ''.'' @ ?fp"
    by (simp add: format_f_def n_def Let_def)
  with l s i show ?thesis by blast
qed

lemma gauges_loop_buffer:
  "fst (snd (gauges_loop now xs (num, buffer, st))) =
     buffer @ map (\<lambda>(g, c). \<lparr>name = g, arg = F c, stamp = now\<rparr>) xs"
  by (induction xs arbitrary: num buffer st) auto

section \<open>The timers emitter on buckets it gets through\<close>

lemma pctls_loop_in_range:
  assumes "\<forall>pct\<in>set pctls. pctl_in_range t pct"
  shows "\<exists>m'. pctls_loop now u t pctls (last t, buffer) =
           Inr (m', buffer @ map (percentile_line now u t) pctls)"
proof -
  have "\<exists>m'. pctls_loop now u t pctls (m, buffer) =
           Inr (m', buffer @ map (percentile_line now u t) pctls)"
    if "1 < length t \<or> m = last t" for m
    using assms that
  proof (induction pctls arbitrary: m buffer)
    case Nil
    then show ?case by simp
  next
    case (Cons pct pctls)
    from Cons.prems(1) have r: "pctl_in_range t pct" and rs: "\<forall>pct\<in>set pctls. pctl_in_range t pct"
      by simp_all
    define m1 where "m1 = (if 1 < length t then t ! nat (indexOfPerc (float pct) (length t)) else m)"
    have i: "(if 1 < length t
               then if rank_converts (float pct) (length t)
                    then index t (indexOfPerc (float pct) (length t))
                    else Inl OutsideModel
               else Inr m) = Inr m1"
      using r by (simp add: pctl_in_range_def index_def m1_def)
    have m1: "1 < length t \<or> m1 = last t"
      using Cons.prems(2) by (auto simp: m1_def)
    have v: "F2 m1 = arg (percentile_line now u t pct)"
      using Cons.prems(2) by (auto simp: m1_def percentile_line_def)
    show ?case
    proof (cases "0 \<le> float pct")
      case True
      from Cons.IH [OF rs m1, of "buffer @ [percentile_line now u t pct]"] True i v
      show ?thesis by (simp add: percentile_line_def)
    next
      case False
      with r obtain c pctstr where s: "str pct = c # pctstr"
        by (cases "str pct") (auto simp: pctl_in_range_def)
      from Cons.IH [OF rs m1, of "buffer @ [percentile_line now u t pct]"] False i v s
      show ?thesis by (simp add: percentile_line_def)
    qed
  qed
  then show ?thesis by simp
qed

lemma sum_loop_finite:
  "sums_finite s t \<Longrightarrow> sum_loop s t = Inr (foldl (\<lambda>s v. float64 (s + v)) s t)"
  by (induction t arbitrary: s) auto

lemma sorted_first_Min: "sorted xs \<Longrightarrow> xs \<noteq> [] \<Longrightarrow> xs ! 0 = Min (set (xs::real list))"
  by (cases xs) (auto intro!: Min_eqI [symmetric])

lemma sorted_last_Max: "sorted xs \<Longrightarrow> xs \<noteq> [] \<Longrightarrow> last xs = Max (set (xs::real list))"
proof -
  assume s: "sorted xs" and n: "xs \<noteq> []"
  have "\<And>y. y \<in> set xs \<Longrightarrow> y \<le> last xs"
  proof -
    fix y assume "y \<in> set xs"
    then obtain i where i: "i < length xs" "xs ! i = y" by (auto simp: in_set_conv_nth)
    with s n have "xs ! i \<le> xs ! (length xs - 1)"
      by (intro sorted_nth_mono) auto
    with i n show "y \<le> last xs" by (simp add: last_conv_nth)
  qed
  with n show ?thesis by (intro Max_eqI [symmetric]) auto
qed

lemma timer_bucket_passes:
  assumes "bucket_passes pctls t0"
  shows "timer_bucket now pctls u t0 buffer = Inr (buffer @ bucket_lines now pctls u t0)"
proof -
  let ?t = "sort t0"
  from assms have t0: "t0 \<noteq> []" and sf: "sums_finite 0 ?t"
    and pr: "\<forall>pct\<in>set pctls. pctl_in_range ?t pct"
    by (simp_all add: bucket_passes_def)
  have n: "?t \<noteq> []" using t0 by (metis length_sort length_0_conv)
  have l: "0 < length t0" using t0 by simp
  have i0: "index ?t 0 = Inr (Min (set t0))"
    using sorted_first_Min [of ?t] n l by (simp add: index_def)
  have i1: "index ?t (int (length ?t) - 1) = Inr (Max (set t0))"
    using sorted_last_Max [of ?t] n l by (simp add: index_def last_conv_nth nat_diff_distrib')
  have i2: "index ?t (int (length ?t div 2)) = Inr (?t ! (length t0 div 2))"
    using l by (simp add: index_def)
  have la: "last ?t = Max (set t0)"
    using sorted_last_Max [of ?t] n by simp
  have su: "sum_loop 0 ?t = Inr (float_sum ?t)"
    using sum_loop_finite [OF sf] by (simp add: float_sum_def)
  obtain m' where p: "pctls_loop now u ?t pctls (Max (set t0), buffer) =
      Inr (m', buffer @ map (percentile_line now u ?t) pctls)"
    using pctls_loop_in_range [OF pr, of now u buffer] la by auto
  show ?thesis
    unfolding timer_bucket_def Let_def i0 i1 i2 su
    by (simp add: p bucket_lines_def summary_lines_def)
qed

lemma timers_loop_passes:
  assumes "\<forall>(u, t0)\<in>set ts. bucket_passes pctls t0"
  shows "timers_loop now pctls ts (num, buffer, st) =
     Inr (num + of_nat (length ts),
          buffer @ concat (map (\<lambda>(u, t0). bucket_lines now pctls u t0) ts),
          st\<lparr>timers := fold (\<lambda>(u, t0). AList.delete u) ts (timers st)\<rparr>)"
  using assms
proof (induction ts arbitrary: num buffer st)
  case Nil
  then show ?case by simp
next
  case (Cons a ts)
  obtain u t0 where a: "a = (u, t0)" by (cases a)
  from Cons.prems a have b: "timer_bucket now pctls u t0 buffer = Inr (buffer @ bucket_lines now pctls u t0)"
    by (intro timer_bucket_passes) auto
  from Cons.prems have "\<forall>(u, t0)\<in>set ts. bucket_passes pctls t0"
    by simp
  from Cons.IH [OF this] a b show ?case by simp
qed

lemma map_of_fold_delete:
  "map_of (fold (\<lambda>(u, t0). AList.delete u) ts al) k =
     (if k \<in> fst ` set ts then None else map_of al k)"
  by (induction ts arbitrary: al) (auto simp: delete_conv')

lemma fold_delete_self: "fold (\<lambda>(u, t0). AList.delete u) al al = []"
proof -
  have "map_of (fold (\<lambda>(u, t0). AList.delete u) al al) k = None" for k
    by (auto simp: map_of_fold_delete map_of_eq_None_iff)
  then show ?thesis
    by (metis map_of_eq_empty_iff ext)
qed

section \<open>The counters emitter\<close>

lemma lines_for_append [simp]: "lines_for b (xs @ ys) = lines_for b xs @ lines_for b ys"
  by (simp add: lines_for_def)

lemma lines_for_Nil [simp]: "lines_for b [] = []"
  by (simp add: lines_for_def)

lemma lines_for_concat:
  assumes "distinct (map fst al)" and "\<And>k v l. l \<in> set (g k v) \<Longrightarrow> name l = k"
  shows "lines_for b (concat (map (\<lambda>(k, v). g k v) al)) =
     (case map_of al b of None \<Rightarrow> [] | Some v \<Rightarrow> g b v)"
  using assms(1)
proof (induction al)
  case Nil
  then show ?case by simp
next
  case (Cons a al)
  obtain k v where a: "a = (k, v)" by (cases a)
  have own: "lines_for k (g k v) = g k v"
    using assms(2) by (simp add: lines_for_def filter_id_conv)
  have other: "lines_for b (g k v) = []" if "b \<noteq> k"
    using assms(2) that by (auto simp: lines_for_def filter_empty_conv)
  from Cons.prems a have "map_of al k = None"
    by (simp add: map_of_eq_None_iff)
  with Cons a own other show ?case by (cases "b = k") simp_all
qed

subsection \<open>The first loop of processCounters\<close>

lemma counters_loop_result:
  "counters_loop now xs (num, buffer, st) =
     (num + of_nat (length xs),
      buffer @ map (\<lambda>(bucket, v). \<lparr>name = bucket, arg = D (sint v), stamp = now\<rparr>) xs,
      st\<lparr>counters := fold (\<lambda>(bucket, v). AList.delete bucket) xs (counters st),
         countInactivity := fold (\<lambda>(bucket, v). AList.update bucket 0) xs (countInactivity st)\<rparr>)"
  by (induction xs arbitrary: num buffer st) auto

lemma map_of_fold_update0:
  "map_of (fold (\<lambda>(bucket, v). AList.update bucket (0::int64)) xs al) k =
     (if k \<in> fst ` set xs then Some 0 else map_of al k)"
  by (induction xs arbitrary: al) (auto simp: update_conv')

lemma distinct_fold_update0:
  "distinct (map fst al) \<Longrightarrow>
   distinct (map fst (fold (\<lambda>(bucket, v). AList.update bucket (0::int64)) xs al))"
  by (induction xs arbitrary: al) (auto simp: distinct_update)

subsection \<open>The second loop\<close>

lemma inactivity_loop_buffer:
  "fst (snd (inactivity_loop cfg now xs (num, buffer, st))) =
     buffer @ concat (map (\<lambda>(bucket, purgeCount).
        if 0 <s purgeCount then [\<lparr>name = bucket, arg = D 0, stamp = now\<rparr>] else []) xs)"
  by (induction xs arbitrary: num buffer st) (auto simp: Let_def)

lemma inactivity_loop_counters:
  "counters (snd (snd (inactivity_loop cfg now xs (num, buffer, st)))) = counters st"
  by (induction xs arbitrary: num buffer st) (auto simp: Let_def)

lemma inactivity_loop_table:
  assumes "distinct (map fst xs)" and "\<forall>(k, v)\<in>set xs. map_of (countInactivity st) k = Some v"
  shows "map_of (countInactivity (snd (snd (inactivity_loop cfg now xs (num, buffer, st))))) k =
     (case map_of xs k of None \<Rightarrow> map_of (countInactivity st) k | Some v \<Rightarrow> tick cfg v)"
  using assms
proof (induction xs arbitrary: num buffer st)
  case Nil
  then show ?case by simp
next
  case (Cons a xs)
  obtain b pc where a: "a = (b, pc)" by (cases a)
  define ci1 where "ci1 = AList.update b (pc + 1) (countInactivity st)"
  define ci2 where "ci2 = (if persistCountKeys cfg <s pc + 1 then AList.delete b ci1 else ci1)"
  define num1 where "num1 = (if 0 <s pc then num + 1 else num)"
  define buffer1 where "buffer1 = (if 0 <s pc
     then buffer @ [\<lparr>name = b, arg = D 0, stamp = now\<rparr>] else buffer)"
  from Cons.prems a have cur: "map_of (countInactivity st) b = Some pc" by simp
  have step: "inactivity_loop cfg now (a # xs) (num, buffer, st) =
      inactivity_loop cfg now xs (num1, buffer1, st\<lparr>countInactivity := ci2\<rparr>)"
    by (simp add: a cur ci1_def ci2_def num1_def buffer1_def update_conv' Let_def lookup0_def)
  have m2: "map_of ci2 = (map_of (countInactivity st))(b := tick cfg pc)"
    by (auto simp: ci2_def ci1_def tick_def update_conv' delete_conv')
  from Cons.prems a have nb: "b \<notin> fst ` set xs" and d: "distinct (map fst xs)" by auto
  then have nx: "map_of xs b = None" by (simp add: map_of_eq_None_iff)
  have inv: "\<forall>(k, v)\<in>set xs. map_of (countInactivity (st\<lparr>countInactivity := ci2\<rparr>)) k = Some v"
  proof (clarify)
    fix k v assume kv: "(k, v) \<in> set xs"
    with nb have "k \<noteq> b" by force
    moreover from kv Cons.prems(2) have "map_of (countInactivity st) k = Some v" by auto
    ultimately show "map_of (countInactivity (st\<lparr>countInactivity := ci2\<rparr>)) k = Some v"
      by (simp add: m2)
  qed
  show ?case
    unfolding step Cons.IH [OF d inv]
    using nx by (auto simp: a m2 split: option.splits)
qed

lemma inactivity_loop_distinct:
  "distinct (map fst (countInactivity st)) \<Longrightarrow>
   distinct (map fst (countInactivity (snd (snd (inactivity_loop cfg now xs (num, buffer, st))))))"
  by (induction xs arbitrary: num buffer st)
     (auto simp: Let_def distinct_update distinct_delete split: option.splits)

lemma map_as_concat: "map f xs = concat (map (\<lambda>x. [f x]) xs)"
  by (induction xs) auto

lemma processCounters_lines:
  assumes "distinct (map fst (counters st))" and "distinct (map fst (countInactivity st))"
  shows "lines_for b (fst (snd (processCounters cfg buffer now st))) =
     lines_for b buffer @
     (case map_of (counters st) b of
        Some v \<Rightarrow> [\<lparr>name = b, arg = D (sint v), stamp = now\<rparr>]
      | None \<Rightarrow> (case map_of (countInactivity st) b of
                   Some pc \<Rightarrow> if 0 <s pc then [\<lparr>name = b, arg = D 0, stamp = now\<rparr>] else []
                 | None \<Rightarrow> []))"
proof -
  let ?ci1 = "fold (\<lambda>(bucket, v). AList.update bucket 0) (counters st) (countInactivity st)"
  have d1: "distinct (map fst ?ci1)"
    using assms(2) by (rule distinct_fold_update0)
  have a: "lines_for b (map (\<lambda>(bucket, v). \<lparr>name = bucket, arg = D (sint v), stamp = now\<rparr>) (counters st))
      = (case map_of (counters st) b of None \<Rightarrow> []
         | Some v \<Rightarrow> [\<lparr>name = b, arg = D (sint v), stamp = now\<rparr>])"
    using lines_for_concat [OF assms(1), of "\<lambda>k v. [\<lparr>name = k, arg = D (sint v), stamp = now\<rparr>]" b]
    by (simp add: map_as_concat [of "\<lambda>(bucket, v). \<lparr>name = bucket, arg = D (sint v), stamp = now\<rparr>"]
        case_prod_unfold)
  have z: "lines_for b (concat (map (\<lambda>(bucket, purgeCount).
        if 0 <s purgeCount then [\<lparr>name = bucket, arg = D 0, stamp = now\<rparr>] else []) ?ci1))
      = (case map_of ?ci1 b of None \<Rightarrow> []
         | Some pc \<Rightarrow> if 0 <s pc then [\<lparr>name = b, arg = D 0, stamp = now\<rparr>] else [])"
    using lines_for_concat [OF d1, of "\<lambda>k pc. if 0 <s pc then [\<lparr>name = k, arg = D 0, stamp = now\<rparr>] else []" b]
    by (simp split: if_splits)
  have m: "map_of ?ci1 b = (if b \<in> fst ` set (counters st) then Some 0 else map_of (countInactivity st) b)"
    by (rule map_of_fold_update0)
  show ?thesis
  proof (cases "map_of (counters st) b")
    case None
    then have "b \<notin> fst ` set (counters st)" by (simp add: map_of_eq_None_iff)
    with None a z m show ?thesis
      by (simp add: processCounters_def counters_loop_result inactivity_loop_buffer)
  next
    case (Some v)
    then have "b \<in> fst ` set (counters st)" by (auto dest: map_of_SomeD intro: rev_image_eqI)
    with Some a z m show ?thesis
      by (simp add: processCounters_def counters_loop_result inactivity_loop_buffer)
  qed
qed

lemma processCounters_ticker:
  assumes "distinct (map fst (countInactivity st))"
  shows "map_of (countInactivity (snd (snd (processCounters cfg buffer now st)))) b =
     (case map_of (counters st) b of
        Some v \<Rightarrow> tick cfg 0
      | None \<Rightarrow> (case map_of (countInactivity st) b of
                   Some pc \<Rightarrow> tick cfg pc
                 | None \<Rightarrow> None))"
proof -
  let ?ci1 = "fold (\<lambda>(bucket, v). AList.update bucket 0) (counters st) (countInactivity st)"
  let ?st1 = "st\<lparr>counters := fold (\<lambda>(bucket, v). AList.delete bucket) (counters st) (counters st),
         countInactivity := ?ci1\<rparr>"
  have d1: "distinct (map fst ?ci1)"
    using assms by (rule distinct_fold_update0)
  have inv: "\<forall>(k, v)\<in>set ?ci1. map_of (countInactivity ?st1) k = Some v"
    using d1 by auto
  have m: "map_of ?ci1 b = (if b \<in> fst ` set (counters st) then Some 0 else map_of (countInactivity st) b)"
    by (rule map_of_fold_update0)
  have t: "map_of (countInactivity (snd (snd (inactivity_loop cfg now ?ci1 (num, buf, ?st1))))) b =
     (case map_of ?ci1 b of None \<Rightarrow> map_of (countInactivity ?st1) b | Some v \<Rightarrow> tick cfg v)" for num buf
    by (rule inactivity_loop_table [OF d1 inv])
  show ?thesis
  proof (cases "map_of (counters st) b")
    case None
    then have "b \<notin> fst ` set (counters st)" by (simp add: map_of_eq_None_iff)
    with None t m show ?thesis
      by (simp add: processCounters_def counters_loop_result split: option.splits)
  next
    case (Some v)
    then have "b \<in> fst ` set (counters st)" by (auto dest: map_of_SomeD intro: rev_image_eqI)
    with Some t m show ?thesis
      by (simp add: processCounters_def counters_loop_result)
  qed
qed

lemma processCounters_counters:
  "counters (snd (snd (processCounters cfg buffer now st))) = []"
  by (simp add: processCounters_def counters_loop_result inactivity_loop_counters fold_delete_self)

lemma processCounters_distinct:
  assumes "distinct (map fst (countInactivity st))"
  shows "distinct (map fst (countInactivity (snd (snd (processCounters cfg buffer now st)))))"
  using assms
  by (simp add: processCounters_def counters_loop_result inactivity_loop_distinct distinct_fold_update0)

subsection \<open>packetHandler and the counter tables\<close>

lemma count_received_frame:
  "countInactivity (count_received cfg st) = countInactivity st"
  "gauges (count_received cfg st) = gauges st"
  "timers (count_received cfg st) = timers st"
  "sets (count_received cfg st) = sets st"
  by (simp_all add: count_received_def Let_def)

lemma count_received_distinct:
  "distinct (map fst (counters st)) \<Longrightarrow> distinct (map fst (counters (count_received cfg st)))"
  by (auto simp: count_received_def Let_def distinct_update split: option.splits)

lemma count_received_other:
  "\<not> (receiveCounter cfg = b \<and> b \<noteq> []) \<Longrightarrow>
   map_of (counters (count_received cfg st)) b = map_of (counters st) b"
  by (auto simp: count_received_def Let_def update_conv' split: option.splits)

lemma packetHandler_returns:
  "well_typed s \<Longrightarrow> \<exists>st1. packetHandler cfg oor s st = Inr st1"
  by (auto simp: well_typed_def packetHandler_def Let_def split: val.splits if_splits)

lemma packetHandler_countInactivity:
  "packetHandler cfg oor s st = Inr st1 \<Longrightarrow> countInactivity st1 = countInactivity st"
  by (auto simp: packetHandler_def Let_def count_received_frame split: val.splits if_splits)

lemma packetHandler_distinct:
  "packetHandler cfg oor s st = Inr st1 \<Longrightarrow> distinct (map fst (counters st)) \<Longrightarrow>
   distinct (map fst (counters st1))"
  by (auto simp: packetHandler_def Let_def count_received_distinct distinct_update
      split: val.splits if_splits)

lemma packetHandler_quiet:
  "packetHandler cfg oor s st = Inr st1 \<Longrightarrow> \<not> counter_event cfg b s \<Longrightarrow>
   map_of (counters st1) b = map_of (counters st) b"
  by (auto simp: packetHandler_def Let_def counter_event_def count_received_other update_conv'
      split: val.splits if_splits)

lemma sint_succ:
  fixes c :: int64
  assumes "sint c < 2 ^ 63 - 1"
  shows "sint (c + 1) = sint c + 1"
proof -
  have "- (2 ^ 63) \<le> sint c" using sint_ge [of c] by simp
  then have "signed_take_bit 63 (sint c + 1) = sint c + 1"
    using assms by (intro signed_take_bit_int_eq_self) auto
  then show ?thesis by (simp add: sint_word_ariths)
qed


subsection \<open>A bucket that receives no counter packet\<close>

lemma tick_zeros_left:
  assumes "sint (persistCountKeys cfg) < 2 ^ 63 - 1" and "0 < r" and "0 \<le> sint c"
    and "sint c = sint (persistCountKeys cfg) + 1 - int r"
  shows "case tick cfg c of None \<Rightarrow> r - 1 = 0
         | Some c1 \<Rightarrow> 0 < r - 1 \<and> 1 \<le> sint c1 \<and> sint c1 = sint (persistCountKeys cfg) + 1 - int (r - 1)"
proof -
  have "sint c < 2 ^ 63 - 1" using assms by simp
  then have s: "sint (c + 1) = sint c + 1" by (rule sint_succ)
  show ?thesis
    using assms s by (auto simp: tick_def word_sless_alt)
qed

lemma run_quiet:
  assumes "sint (persistCountKeys cfg) < 2 ^ 63 - 1"
    and "\<forall>s\<in>set (applied acts). well_typed s \<and> \<not> counter_event cfg b s"
    and "distinct (map fst (counters st))" and "distinct (map fst (countInactivity st))"
    and "map_of (counters st) b = None"
    and "zeros_left cfg st b r"
  shows "\<exists>outs st1. run cfg oor acts st = Inr (outs, st1) \<and>
     map (lines_for b) outs =
       map (\<lambda>now. [\<lparr>name = b, arg = D 0, stamp = now\<rparr>]) (take r (flush_times acts)) @
       replicate (length (flush_times acts) - r) [] \<and>
     zeros_left cfg st1 b (r - length (flush_times acts))"
  using assms(2-)
proof (induction acts arbitrary: st r)
  case Nil
  then show ?case by simp
next
  case (Cons a acts)
  show ?case
  proof (cases a)
    case (Apply s)
    with Cons.prems(1) have w: "well_typed s" and q: "\<not> counter_event cfg b s"
      and rest: "\<forall>s\<in>set (applied acts). well_typed s \<and> \<not> counter_event cfg b s"
      by simp_all
    from w obtain st1 where p: "packetHandler cfg oor s st = Inr st1"
      using packetHandler_returns by blast
    have d1: "distinct (map fst (counters st1))"
      using p Cons.prems(2) by (rule packetHandler_distinct)
    have ci: "countInactivity st1 = countInactivity st"
      using p by (rule packetHandler_countInactivity)
    have c1: "map_of (counters st1) b = None"
      using packetHandler_quiet [OF p q] Cons.prems(4) by simp
    have z1: "zeros_left cfg st1 b r"
      using Cons.prems(5) by (simp add: zeros_left_def ci)
    from Cons.IH [OF rest d1 _ c1 z1] Cons.prems(3) ci Apply p
    show ?thesis by simp
  next
    case (Flush now)
    obtain num buffer st1 where pc: "processCounters cfg [] now st = (num, buffer, st1)"
      by (cases "processCounters cfg [] now st")
    from Cons.prems(1) Flush
    have rest: "\<forall>s\<in>set (applied acts). well_typed s \<and> \<not> counter_event cfg b s" by simp
    have d1: "distinct (map fst (counters st1))"
      using processCounters_counters [of cfg "[]" now st] pc by simp
    have d2: "distinct (map fst (countInactivity st1))"
      using processCounters_distinct [OF Cons.prems(3), of cfg "[]" now] pc by simp
    have c1: "map_of (counters st1) b = None"
      using processCounters_counters [of cfg "[]" now st] pc by simp
    have l: "lines_for b buffer =
       (case map_of (countInactivity st) b of
          Some pc \<Rightarrow> if 0 <s pc then [\<lparr>name = b, arg = D 0, stamp = now\<rparr>] else []
        | None \<Rightarrow> [])"
      using processCounters_lines [OF Cons.prems(2,3), of b cfg "[]" now] pc Cons.prems(4) by simp
    have t: "map_of (countInactivity st1) b =
       (case map_of (countInactivity st) b of Some pc \<Rightarrow> tick cfg pc | None \<Rightarrow> None)"
      using processCounters_ticker [OF Cons.prems(3), of cfg "[]" now b] pc Cons.prems(4) by simp
    have z1: "zeros_left cfg st1 b (r - 1)"
      and l1: "lines_for b buffer = (if 0 < r then [\<lparr>name = b, arg = D 0, stamp = now\<rparr>] else [])"
    proof -
      show "zeros_left cfg st1 b (r - 1)"
      proof (cases "map_of (countInactivity st) b")
        case None
        with Cons.prems(5) t show ?thesis by (simp add: zeros_left_def)
      next
        case (Some c)
        with Cons.prems(5) have "0 < r" "0 \<le> sint c"
          "sint c = sint (persistCountKeys cfg) + 1 - int r"
          by (simp_all add: zeros_left_def)
        from tick_zeros_left [OF assms(1) this] t Some show ?thesis
          by (auto simp: zeros_left_def split: option.splits)
      qed
      show "lines_for b buffer = (if 0 < r then [\<lparr>name = b, arg = D 0, stamp = now\<rparr>] else [])"
        using l Cons.prems(5) by (auto simp: zeros_left_def word_sless_alt split: option.splits)
    qed
    from Cons.IH [OF rest d1 d2 c1 z1]
    obtain outs st2 where r: "run cfg oor acts st1 = Inr (outs, st2)"
      and o: "map (lines_for b) outs =
        map (\<lambda>now. [\<lparr>name = b, arg = D 0, stamp = now\<rparr>]) (take (r - 1) (flush_times acts)) @
        replicate (length (flush_times acts) - (r - 1)) []"
      and z2: "zeros_left cfg st2 b (r - 1 - length (flush_times acts))"
      by blast
    show ?thesis
    proof (cases r)
      case 0
      with Flush pc r o z2 l1 show ?thesis by simp
    next
      case (Suc r')
      with Flush pc r o z2 l1 show ?thesis by (simp add: Suc_diff_le)
    qed
  qed
qed

subsection \<open>Counter packets between two flushes\<close>

lemma packetHandler_counter:
  assumes "packetHandler cfg oor s st = Inr st1" and "\<not> (receiveCounter cfg = b \<and> b \<noteq> [])"
  shows "map_of (counters st1) b =
     (case counter_events b [s] of
        [] \<Rightarrow> map_of (counters st) b
      | (v, r) # _ \<Rightarrow> Some (lookup0 (counters st) b + counter_delta oor v r))"
  using assms
  by (auto simp: packetHandler_def Let_def count_received_other update_conv' lookup0_def
      split: val.splits if_splits)

lemma run_applies:
  assumes "\<forall>s\<in>set ps. well_typed s" and "\<not> (receiveCounter cfg = b \<and> b \<noteq> [])"
    and "distinct (map fst (counters st))"
  shows "\<exists>st1. run cfg oor (map Apply ps @ acts) st = run cfg oor acts st1 \<and>
     distinct (map fst (counters st1)) \<and> countInactivity st1 = countInactivity st \<and>
     map_of (counters st1) b =
       (if counter_events b ps = [] then map_of (counters st) b
        else Some (lookup0 (counters st) b +
                   sum_list (map (\<lambda>(v, r). counter_delta oor v r) (counter_events b ps))))"
  using assms(1,3)
proof (induction ps arbitrary: st)
  case Nil
  then show ?case by (intro exI [of _ st]) simp
next
  case (Cons s ps)
  from Cons.prems(1) have "well_typed s" by simp
  then obtain st1 where p: "packetHandler cfg oor s st = Inr st1"
    using packetHandler_returns [of s cfg oor st] by blast
  have d1: "distinct (map fst (counters st1))"
    using p Cons.prems(2) by (rule packetHandler_distinct)
  have ci: "countInactivity st1 = countInactivity st"
    using p by (rule packetHandler_countInactivity)
  from Cons.prems(1) have rest: "\<forall>s\<in>set ps. well_typed s" by simp
  from Cons.IH [OF rest d1] obtain st2 where
    r: "run cfg oor (map Apply ps @ acts) st1 = run cfg oor acts st2"
    and d2: "distinct (map fst (counters st2))"
    and ci2: "countInactivity st2 = countInactivity st1"
    and c2: "map_of (counters st2) b =
       (if counter_events b ps = [] then map_of (counters st1) b
        else Some (lookup0 (counters st1) b +
                   sum_list (map (\<lambda>(v, r). counter_delta oor v r) (counter_events b ps))))"
    by blast
  have c1: "map_of (counters st1) b =
     (case counter_events b [s] of
        [] \<Rightarrow> map_of (counters st) b
      | (v, r) # _ \<Rightarrow> Some (lookup0 (counters st) b + counter_delta oor v r))"
    using p assms(2) by (rule packetHandler_counter)
  have "map_of (counters st2) b =
       (if counter_events b (s # ps) = [] then map_of (counters st) b
        else Some (lookup0 (counters st) b +
                   sum_list (map (\<lambda>(v, r). counter_delta oor v r) (counter_events b (s # ps)))))"
    using c1 c2 by (auto simp: lookup0_def add.assoc split: val.splits list.splits)
  with r d2 ci2 ci p show ?case by auto
qed

section \<open>Evaluating the roundings\<close>

lemma round_half_even_of_int [simp]: "round_half_even (real_of_int m) = m"
  by (simp add: round_half_even_def)

lemma round_float_exponent:
  assumes "x \<noteq> 0" and "2 powr real_of_int k \<le> \<bar>x\<bar>" and "\<bar>x\<bar> < 2 powr real_of_int (k + 1)"
  shows "round_float p emin x =
     real_of_int (round_half_even (x / 2 powr real_of_int (max k emin - int p + 1)))
       * 2 powr real_of_int (max k emin - int p + 1)"
proof -
  have "\<lfloor>log 2 \<bar>x\<bar>\<rfloor> = k"
    using assms by (subst floor_log_eq_powr_iff) (auto simp: add.commute)
  then show ?thesis
    using assms(1) by (simp add: round_float_def Let_def)
qed

lemma round_float_of_int:
  assumes "\<bar>m\<bar> < 2 ^ p" and "emin - int p + 1 \<le> 0"
  shows "round_float p emin (real_of_int m) = real_of_int m"
proof (cases "m = 0")
  case True
  then show ?thesis by (simp add: round_float_def)
next
  case False
  define x where "x = real_of_int m"
  define k where "k = \<lfloor>log 2 \<bar>x\<bar>\<rfloor>"
  have x1: "1 \<le> \<bar>x\<bar>" using False by (simp add: x_def)
  have xp: "\<bar>x\<bar> < 2 ^ p"
    using assms(1) unfolding x_def by (metis of_int_abs of_int_less_numeral_power_cancel_iff)
  have "log 2 \<bar>x\<bar> < real p"
    using x1 xp by (subst log_less_iff) (auto simp: powr_realpow)
  then have kp: "k < int p" unfolding k_def by linarith
  define e where "e = max k emin"
  define j where "j = nat (int p - 1 - e)"
  have ej: "e - int p + 1 = - int j"
    using kp assms(2) by (auto simp: e_def j_def)
  have ulp: "2 powr real_of_int (e - int p + 1) = 1 / 2 ^ j"
    unfolding ej by (simp add: powr_minus_divide powr_realpow)
  have q: "x / (1 / 2 ^ j) = real_of_int (m * 2 ^ j)"
    by (simp add: x_def)
  have "round_float p emin x =
      real_of_int (round_half_even (x / 2 powr real_of_int (e - int p + 1)))
        * 2 powr real_of_int (e - int p + 1)"
    using False by (simp add: round_float_def Let_def x_def k_def e_def)
  also have "\<dots> = x"
    unfolding ulp q round_half_even_of_int by (simp add: x_def)
  finally show ?thesis by (simp add: x_def)
qed

lemma float64_of_int: "\<bar>m\<bar> < 2 ^ 53 \<Longrightarrow> float64 (real_of_int m) = real_of_int m"
  unfolding float64_def by (rule round_float_of_int) simp_all

lemma float32_of_int: "\<bar>m\<bar> < 2 ^ 24 \<Longrightarrow> float32 (real_of_int m) = real_of_int m"
  unfolding float32_def by (rule round_float_of_int) simp_all

lemma float64_numeral [simp]:
  "\<bar>numeral n :: int\<bar> < 2 ^ 53 \<Longrightarrow> float64 (numeral n) = numeral n"
  using float64_of_int [of "numeral n"] by simp

lemma float64_0 [simp]: "float64 0 = 0" and float64_1 [simp]: "float64 1 = 1"
  using float64_of_int [of 0] float64_of_int [of 1] by simp_all

lemma float32_numeral [simp]:
  "\<bar>numeral n :: int\<bar> < 2 ^ 24 \<Longrightarrow> float32 (numeral n) = numeral n"
  using float32_of_int [of "numeral n"] by simp

lemma float32_0 [simp]: "float32 0 = 0" and float32_1 [simp]: "float32 1 = 1"
  using float32_of_int [of 0] float32_of_int [of 1] by simp_all

text \<open>The integer \<open>2^53 + 1\<close> is halfway between two float64 values; the tie goes to the even one.\<close>

lemma float64_tie: "float64 9007199254740993 = 9007199254740992"
proof -
  have "round_float 53 (- 1022) 9007199254740993 =
     real_of_int (round_half_even (9007199254740993 / 2 powr real_of_int (max 53 (- 1022) - int 53 + 1)))
       * 2 powr real_of_int (max 53 (- 1022) - int 53 + 1)"
    by (rule round_float_exponent) (simp_all add: powr_realpow [of 2 53, simplified] powr_realpow [of 2 54, simplified])
  also have "\<dots> = 9007199254740992"
    by (simp add: round_half_even_def)
  finally show ?thesis by (simp add: float64_def)
qed

lemma float64_2_53: "float64 9007199254740992 = 9007199254740992"
proof -
  have "round_float 53 (- 1022) 9007199254740992 =
     real_of_int (round_half_even (9007199254740992 / 2 powr real_of_int (max 53 (- 1022) - int 53 + 1)))
       * 2 powr real_of_int (max 53 (- 1022) - int 53 + 1)"
    by (rule round_float_exponent) (simp_all add: powr_realpow [of 2 53, simplified] powr_realpow [of 2 54, simplified])
  also have "\<dots> = 9007199254740992"
    by (simp add: round_half_even_def)
  finally show ?thesis by (simp add: float64_def)
qed

lemma round_half_even_nonneg: "0 \<le> x \<Longrightarrow> 0 \<le> round_half_even x"
  by (auto simp: round_half_even_def Let_def)

lemma round_half_even_nonpos: "x \<le> 0 \<Longrightarrow> round_half_even x \<le> 0"
proof -
  assume x: "x \<le> 0"
  define f where "f = \<lfloor>x\<rfloor>"
  have f0: "f \<le> 0" using x unfolding f_def by linarith
  have "f \<le> - 1" if "1 / 2 \<le> x - real_of_int f"
  proof -
    from that x have "real_of_int f \<le> - 1 / 2" by linarith
    then have "real_of_int f < 0" by linarith
    then show ?thesis by linarith
  qed
  then show ?thesis
    using f0 by (auto simp: round_half_even_def Let_def f_def [symmetric])
qed

lemma round_float_nonneg: "0 \<le> x \<Longrightarrow> 0 \<le> round_float p emin x"
  by (auto simp: round_float_def Let_def intro!: mult_nonneg_nonneg round_half_even_nonneg)

lemma round_float_nonpos: "x \<le> 0 \<Longrightarrow> round_float p emin x \<le> 0"
proof -
  assume x: "x \<le> 0"
  have "real_of_int (round_half_even (x / u)) * u \<le> 0" if "0 < u" for u :: real
  proof -
    from x that have "x / u \<le> 0" by (simp add: divide_nonpos_pos)
    then have "round_half_even (x / u) \<le> 0" by (rule round_half_even_nonpos)
    then have "real_of_int (round_half_even (x / u)) \<le> 0" by simp
    with that show ?thesis by (simp add: mult_nonpos_nonneg)
  qed
  then show ?thesis by (simp add: round_float_def Let_def)
qed

lemma float64_nonneg: "0 \<le> x \<Longrightarrow> 0 \<le> float64 x"
  unfolding float64_def by (rule round_float_nonneg)

lemma float64_nonpos: "x \<le> 0 \<Longrightarrow> float64 x \<le> 0"
  unfolding float64_def by (rule round_float_nonpos)

lemma round_float_dyadic:
  assumes "\<bar>m\<bar> < 2 ^ p" and "emin - int p + 1 \<le> - int j"
  shows "round_float p emin (real_of_int m / 2 ^ j) = real_of_int m / 2 ^ j"
proof (cases "m = 0")
  case True
  then show ?thesis by (simp add: round_float_def)
next
  case False
  define x where "x = real_of_int m / 2 ^ j"
  define k where "k = \<lfloor>log 2 \<bar>x\<bar>\<rfloor>"
  have x0: "x \<noteq> 0" using False by (simp add: x_def)
  have xp: "\<bar>x\<bar> * 2 ^ j < 2 ^ p"
  proof -
    have "\<bar>x\<bar> * 2 ^ j = \<bar>real_of_int m\<bar>" by (simp add: x_def abs_divide)
    also have "\<dots> < 2 ^ p"
      using assms(1) by (metis of_int_abs of_int_less_numeral_power_cancel_iff)
    finally show ?thesis .
  qed
  have "\<bar>x\<bar> < 2 powr (real p - real j)"
  proof -
    have "\<bar>x\<bar> < 2 ^ p / 2 ^ j" using xp by (simp add: pos_less_divide_eq)
    also have "\<dots> = 2 powr (real p - real j)"
      by (simp add: powr_diff powr_realpow)
    finally show ?thesis .
  qed
  then have "log 2 \<bar>x\<bar> < real p - real j"
    using x0 by (subst log_less_iff) auto
  then have kp: "k < int p - int j" unfolding k_def by linarith
  define e where "e = max k emin"
  define i where "i = nat (int p - 1 - e - int j)"
  have ei: "e - int p + 1 = - int (i + j)"
    using kp assms(2) by (auto simp: e_def i_def)
  have ulp: "2 powr real_of_int (e - int p + 1) = 1 / 2 ^ (i + j)"
    unfolding ei by (simp add: powr_minus_divide powr_realpow del: of_nat_add)
  have q: "x / (1 / 2 ^ (i + j)) = real_of_int (m * 2 ^ i)"
    by (simp add: x_def power_add)
  have "round_float p emin x =
      real_of_int (round_half_even (x / 2 powr real_of_int (e - int p + 1)))
        * 2 powr real_of_int (e - int p + 1)"
    using x0 by (simp add: round_float_def Let_def k_def e_def)
  also have "\<dots> = x"
    unfolding ulp q round_half_even_of_int by (simp add: x_def power_add)
  finally show ?thesis by (simp add: x_def)
qed

lemma float64_dyadic:
  "\<bar>m\<bar> < 2 ^ 53 \<Longrightarrow> j \<le> 1074 \<Longrightarrow> float64 (real_of_int m / 2 ^ j) = real_of_int m / 2 ^ j"
  unfolding float64_def by (rule round_float_dyadic) simp_all

lemma float64_halves [simp]:
  "float64 (1 / 2) = 1 / 2"
  "\<bar>numeral a :: int\<bar> < 2 ^ 53 \<Longrightarrow> float64 (numeral a / 2) = numeral a / 2"
  "float64 (1 / 4) = 1 / 4"
  "\<bar>numeral a :: int\<bar> < 2 ^ 53 \<Longrightarrow> float64 (numeral a / 4) = numeral a / 4"
  using float64_dyadic [of 1 1] float64_dyadic [of "numeral a" 1]
    float64_dyadic [of 1 2] float64_dyadic [of "numeral a" 2]
  by simp_all

lemma float64_neg_numeral [simp]:
  "\<bar>numeral n :: int\<bar> < 2 ^ 53 \<Longrightarrow> float64 (- numeral n) = - numeral n"
  using float64_of_int [of "- numeral n"] by simp

lemma float64_exponent:
  assumes "x \<noteq> 0" and "2 powr real_of_int k \<le> \<bar>x\<bar>" and "\<bar>x\<bar> < 2 powr real_of_int (k + 1)"
    and "- 1022 \<le> k"
  shows "float64 x =
     real_of_int (round_half_even (x / 2 powr real_of_int (k - 52))) * 2 powr real_of_int (k - 52)"
  using round_float_exponent [OF assms(1-3), of 53 "- 1022"] assms(4)
  by (simp add: float64_def max_def)

text \<open>The percentile 58 on 25 samples: 0.58 is not a float64, and its product with 25 falls short of 14.5.\<close>

lemma float64_29_50: "float64 (29 / 50) = 5224175567749775 / 9007199254740992"
  using float64_exponent [of "29 / 50" "- 1"]
  by (simp add: powr_minus_divide round_half_even_def)

lemma float64_58_25:
  "float64 (130604389193744375 / 9007199254740992) = 8162774324609023 / 562949953421312"
  using float64_exponent [of "130604389193744375 / 9007199254740992" 3]
  by (simp add: powr_minus_divide round_half_even_def)

lemma rank_58_25: "rank 58 25 = 8162774324609023 / 562949953421312"
  by (simp add: rank_def float64_29_50 float64_58_25)

lemma float64_58_25_half:
  "float64 (8444249301319679 / 562949953421312) = 8444249301319679 / 562949953421312"
  using float64_dyadic [of 8444249301319679 49] by simp

lemma indexOfPerc_58_25: "count = 25 \<Longrightarrow> indexOfPerc 58 count = 13"
  by (simp add: indexOfPerc_def rank_58_25 float64_58_25_half)

lemma rank_converts_58_25: "count = 25 \<Longrightarrow> rank_converts 58 count"
  by (simp add: rank_converts_def rank_58_25 float64_58_25_half finite64_def)

section \<open>Evaluating the flags and the parser\<close>

lemma decimal_strconv_sel [simp]:
  "ParseFloat64 decimal_strconv = decimal_float" "ParseFloat32 decimal_strconv = decimal_float"
  by (simp_all add: decimal_strconv_def)

lemma default_flags_sel [simp]:
  "graphiteAddress default_flags = ''127.0.0.1:2003''" "debug default_flags = False"
  "persistCountKeys default_flags = 60" "receiveCounter default_flags = []"
  "percentThreshold default_flags = []" "prefix default_flags = ''stats.''"
  "prefixTimers default_flags = ''timers.''" "prefixGauges default_flags = ''gauges.''"
  by (simp_all add: default_flags_def)

lemmas parse_eval = parseMessage_def parse_line_def parse_value_def make_packet_def
  string_of_byte_def decimal_float_def signed_decimal_def ParseInt_def

section \<open>Relative-negative gauges\<close>

lemma apply_gauge_sub:
  "apply_gauge \<lparr>Relative = True, Negative = True, GaugeData.Value = d\<rparr> v =
     (if v < d then 0 else float64 (v - d))"
  by (simp add: apply_gauge_def)

lemma packetHandler_gauge_sub:
  "\<exists>st1. packetHandler cfg oor (gauge_sub b d) st = Inr st1 \<and>
     map_of (gauges st1) b =
       Some (if lookup0 (gauges st) b < d then 0 else float64 (lookup0 (gauges st) b - d))"
  by (simp add: packetHandler_def gauge_sub_def Let_def apply_gauge_sub count_received_frame
      update_conv')

text \<open>
  One subtraction of a magnitude that is not negative, from a stored value \<open>c\<close> that is
  the accumulator \<open>a\<close> or its clamp: the new stored value is the clamp of the new
  accumulator.
\<close>

lemma gauge_sub_step:
  assumes "0 \<le> d" and "c = a \<or> c = max 0 a"
  shows "(if c < d then 0 else float64 (c - d)) = max 0 (float64 (a - d))"
proof (cases "c < d")
  case True
  have "a \<le> c" using assms(2) by auto
  with True have "a - d \<le> 0" by simp
  then have "float64 (a - d) \<le> 0" by (rule float64_nonpos)
  with True show ?thesis by simp
next
  case False
  show ?thesis
  proof (cases "c = a")
    case True
    from False have "0 \<le> c - d" by simp
    then have "0 \<le> float64 (c - d)" by (rule float64_nonneg)
    with False True show ?thesis by simp
  next
    case ca: False
    with assms(2) have "a < 0" and c: "c = 0" by (auto simp: max_def split: if_splits)
    with False assms(1) have d0: "d = 0" by simp
    from \<open>a < 0\<close> have "float64 a \<le> 0" by (intro float64_nonpos) simp
    with c d0 show ?thesis by simp
  qed
qed

lemma run_gauge_sub:
  assumes "ds \<noteq> []" and "\<forall>d\<in>set ds. 0 \<le> d"
    and "lookup0 (gauges st) b = a \<or> lookup0 (gauges st) b = max 0 a"
  shows "\<exists>st1. run cfg oor (map (\<lambda>d. Apply (gauge_sub b d)) ds) st = Inr ([], st1) \<and>
     map_of (gauges st1) b = Some (max 0 (foldl (\<lambda>a d. float64 (a - d)) a ds))"
  using assms
proof (induction ds arbitrary: st a)
  case Nil
  then show ?case by simp
next
  case (Cons d ds)
  from Cons.prems(2) have d: "0 \<le> d" by simp
  obtain st1 where p: "packetHandler cfg oor (gauge_sub b d) st = Inr st1"
    and g: "map_of (gauges st1) b =
       Some (if lookup0 (gauges st) b < d then 0 else float64 (lookup0 (gauges st) b - d))"
    using packetHandler_gauge_sub by blast
  from g gauge_sub_step [OF d Cons.prems(3)]
  have g1: "map_of (gauges st1) b = Some (max 0 (float64 (a - d)))" by simp
  show ?case
  proof (cases "ds = []")
    case True
    with p g1 show ?thesis by simp
  next
    case False
    from Cons.prems(2) have nn: "\<forall>d\<in>set ds. 0 \<le> d" by simp
    have "lookup0 (gauges st1) b = float64 (a - d)
        \<or> lookup0 (gauges st1) b = max 0 (float64 (a - d))"
      using g1 by (simp add: lookup0_def)
    from Cons.IH [OF False nn this] obtain st2 where
      "run cfg oor (map (\<lambda>d. Apply (gauge_sub b d)) ds) st1 = Inr ([], st2)"
      "map_of (gauges st2) b = Some (max 0 (foldl (\<lambda>a d. float64 (a - d)) (float64 (a - d)) ds))"
      by blast
    with p show ?thesis by simp
  qed
qed

lemma float64_10_16: "float64 9999999999999999 = 10000000000000000"
  using float64_exponent [of 9999999999999999 53]
  by (simp add: round_half_even_def)
section \<open>What the other emitters leave alone\<close>

lemma gauges_loop_frame:
  "counters (snd (snd (gauges_loop now xs (num, buffer, st)))) = counters st \<and>
   countInactivity (snd (snd (gauges_loop now xs (num, buffer, st)))) = countInactivity st"
  by (induction xs arbitrary: num buffer st) auto

lemma sets_loop_frame:
  "counters (snd (sets_loop now xs (buffer, st))) = counters st \<and>
   countInactivity (snd (sets_loop now xs (buffer, st))) = countInactivity st"
  by (induction xs arbitrary: buffer st) auto

lemma timers_loop_frame:
  "timers_loop now pctls xs (num, buffer, st) = Inr (num1, buffer1, st1) \<Longrightarrow>
   counters st1 = counters st \<and> countInactivity st1 = countInactivity st"
  by (induction xs arbitrary: num buffer st) (auto split: sum.splits)

lemma other_emitters_frame:
  "counters (snd (snd (processGauges buffer now st))) = counters st"
  "countInactivity (snd (snd (processGauges buffer now st))) = countInactivity st"
  "counters (snd (snd (processSets buffer now st))) = counters st"
  "countInactivity (snd (snd (processSets buffer now st))) = countInactivity st"
  "processTimers buffer now pctls st = Inr (num1, buffer1, st1) \<Longrightarrow>
     counters st1 = counters st \<and> countInactivity st1 = countInactivity st"
  using timers_loop_frame [of now pctls "timers st" 0 buffer st num1 buffer1 st1]
  by (simp_all add: processGauges_def processSets_def processTimers_def gauges_loop_frame
      sets_loop_frame case_prod_unfold)

section \<open>Packets from the parser are well typed\<close>

lemma string_of_byte_not_ms: "string_of_byte c \<noteq> ''ms''"
proof (cases "(of_char c :: nat) < 128")
  case True
  then show ?thesis by (simp add: string_of_byte_def)
next
  case False
  define n :: nat where "n = of_char c"
  have "n < 256" unfolding n_def by (rule nat_of_char_less_256)
  moreover have "128 \<le> n" using False by (simp add: n_def)
  ultimately have "n div 64 = 2 \<or> n div 64 = 3" by arith
  then have k: "(of_char c :: nat) div 64 = 2 \<or> (of_char c :: nat) div 64 = 3"
    by (simp add: n_def)
  have "(of_char (char_of (192 + (of_char c :: nat) div 64)) :: nat) \<noteq> of_char (CHR ''m'')"
    using k by auto
  then have "char_of (192 + (of_char c :: nat) div 64) \<noteq> CHR ''m''" by metis
  with False show ?thesis by (simp add: string_of_byte_def)
qed

lemma parse_value_well_typed:
  assumes "parse_value cfg sc name' val' mtypeStr prefixToAdd input = Inr (Some packet)"
    and "mtypeStr = ''ms'' \<or> (\<exists>c. mtypeStr = string_of_byte c \<and> c \<noteq> CHR ''m'')"
  shows "well_typed packet"
proof -
  have m: "Modifier packet = mtypeStr"
    using assms(1)
    by (auto simp: parse_value_def make_packet_def Let_def split: if_splits option.splits list.splits)
  from assms(2) show ?thesis
  proof
    assume ms: "mtypeStr = ''ms''"
    with assms(1) show ?thesis
      by (auto simp: parse_value_def make_packet_def well_typed_def Let_def split: option.splits)
  next
    assume "\<exists>c. mtypeStr = string_of_byte c \<and> c \<noteq> CHR ''m''"
    then obtain c where c: "mtypeStr = string_of_byte c" "c \<noteq> CHR ''m''" by blast
    show ?thesis
    proof (cases "(of_char c :: nat) < 128")
      case True
      then have s: "mtypeStr = [c]" using c by (simp add: string_of_byte_def)
      with assms(1) show ?thesis
        by (auto simp: parse_value_def make_packet_def well_typed_def Let_def
            split: if_splits option.splits list.splits)
    next
      case False
      then have l: "length mtypeStr = 2" using c by (simp add: string_of_byte_def)
      have n: "mtypeStr \<noteq> ''ms''" using c string_of_byte_not_ms by simp
      from l have "mtypeStr \<noteq> ''g''" "mtypeStr \<noteq> ''c''" "mtypeStr \<noteq> ''s''" by auto
      with n m show ?thesis by (simp add: well_typed_def)
    qed
  qed
qed

lemma parse_line_well_typed:
  "parse_line cfg sc line' = Inr (Some packet) \<Longrightarrow> well_typed packet"
  by (auto simp: parse_line_def Let_def split: option.splits if_splits
      intro: parse_value_well_typed)

lemma parse_lines_well_typed:
  "parse_lines cfg sc ls = Inr out \<Longrightarrow> \<forall>packet\<in>set out. well_typed packet"
  by (induction ls arbitrary: out)
     (auto split: if_splits sum.splits option.splits dest: parse_line_well_typed)

lemma parseMessage_well_typed:
  "parseMessage cfg sc data = Inr out \<Longrightarrow> \<forall>packet\<in>set out. well_typed packet"
  unfolding parseMessage_def by (rule parse_lines_well_typed)

section \<open>Timer buckets are never empty\<close>

lemma packetHandler_timers_nonempty:
  assumes "packetHandler cfg oor s st = Inr st1" and "\<forall>(u, t)\<in>set (timers st). t \<noteq> []"
  shows "\<forall>(u, t)\<in>set (timers st1). t \<noteq> []"
proof -
  have u: "\<forall>(u, t)\<in>set (AList.update k (xs @ [x]) al). t \<noteq> []"
    if "\<forall>(u, t)\<in>set al. t \<noteq> []" for k xs and x :: real and al
    using that by (induction al) auto
  have v: "t \<noteq> []" if "(a, t) \<in> set (AList.update k (xs @ [x]) (timers st))"
    for a t k xs x
    using u [OF assms(2), of k xs x] that by auto
  show ?thesis
    using assms
    by (auto simp: packetHandler_def Let_def count_received_frame split: val.splits if_splits
        dest: v)
qed

section \<open>The counter increment at rate 1\<close>

lemma counter_delta_rate_one:
  assumes "\<bar>sint d\<bar> < 2 ^ 53"
  shows "counter_delta oor d 1 = d"
proof -
  have f: "float64 (real_of_int (sint d)) = real_of_int (sint d)"
    using assms by (rule float64_of_int)
  have t: "trunc (real_of_int (sint d)) = sint d"
    by (simp add: trunc_def del: of_int_sint)
  have r: "- (2 ^ 63) \<le> sint d \<and> sint d < 2 ^ 63"
    using assms by auto
  have w: "word_of_int (sint d) = d" by simp
  show ?thesis
    using r by (simp add: counter_delta_def Let_def f t w del: of_int_sint)
qed

section \<open>Flushing\<close>

text \<open>
  C7. When the dial to the Graphite receiver fails and debug is off, submit returns an
  error and every table (counters, timers, gauges, sets, and countInactivity too) is
  exactly as it was; nothing is written.
\<close>

theorem submit_dial_failure_keeps_tables:
  assumes "graphiteAddress cfg \<noteq> ''-''" and "dial_err net = Some err" and "\<not> debug cfg"
  shows "\<exists>msg. submit cfg net now st = Inr (Some msg, None, st)"
  using assms by (simp add: submit_def)

theorem submit_dial_failure_keeps_tables_witness:
  "\<exists>msg. submit
     \<lparr>graphiteAddress = ''127.0.0.1:2003'', debug = False, persistCountKeys = 60,
      receiveCounter = '''', percentThreshold = [], prefix = ''stats.'',
      prefixTimers = ''timers.'', prefixGauges = ''gauges.''\<rparr>
     \<lparr>dial_err = Some ''connection refused'', deadline_err = None, write_err = None\<rparr>
     1000
     \<lparr>counters = [(''stats.foo'', 5)], gauges = [(''stats.gauges.g'', 3)],
      timers = [(''stats.timers.lat'', [100, 200])], countInactivity = [],
      sets = [(''stats.u'', [''alice''])]\<rparr>
   = Inr (Some msg, None,
     \<lparr>counters = [(''stats.foo'', 5)], gauges = [(''stats.gauges.g'', 3)],
      timers = [(''stats.timers.lat'', [100, 200])], countInactivity = [],
      sets = [(''stats.u'', [''alice''])]\<rparr>)"
  by (rule submit_dial_failure_keeps_tables) simp_all

text \<open>
  C8. When the Graphite address is the sentinel \<open>-\<close>, submit returns nil, leaves every
  table exactly as it was, runs no emitter and writes nothing.
\<close>

theorem submit_disabled_is_noop:
  assumes "graphiteAddress cfg = ''-''"
  shows "submit cfg net now st = Inr (None, None, st)"
  using assms by (simp add: submit_def)

theorem submit_disabled_is_noop_witness:
  "submit
     \<lparr>graphiteAddress = ''-'', debug = True, persistCountKeys = 60,
      receiveCounter = '''', percentThreshold = [], prefix = ''stats.'',
      prefixTimers = ''timers.'', prefixGauges = ''gauges.''\<rparr>
     \<lparr>dial_err = None, deadline_err = None, write_err = None\<rparr>
     1000
     \<lparr>counters = [(''stats.foo'', 5)], gauges = [], timers = [],
      countInactivity = [(''stats.bar'', 2)], sets = []\<rparr>
   = Inr (None, None,
     \<lparr>counters = [(''stats.foo'', 5)], gauges = [], timers = [],
      countInactivity = [(''stats.bar'', 2)], sets = []\<rparr>)"
  by (rule submit_disabled_is_noop) simp

section \<open>The format of gauge lines\<close>

text \<open>
  C9, as stated: every gauge line prints its value with two decimals, so that the value 0
  is written \<open>0.00\<close>. The gauges emitter uses the verb \<open>%f\<close>, not the \<open>%0.2f\<close> of the
  timer lines: a gauge of value 0 is written \<open>0.000000\<close>.
\<close>

theorem gauge_two_decimals_counterexample:
  "render_buffer (fst (snd (processGauges [] 5
      \<lparr>counters = [], gauges = [(''stats.gauges.g'', 0)], timers = [],
       countInactivity = [], sets = []\<rparr>)))
     = ''stats.gauges.g 0.000000 5'' @ [CHR 0x0A]
   \<and> render_buffer (fst (snd (processGauges [] 5
      \<lparr>counters = [], gauges = [(''stats.gauges.g'', 0)], timers = [],
       countInactivity = [], sets = []\<rparr>)))
     \<noteq> ''stats.gauges.g 0.00 5'' @ [CHR 0x0A]"
  by (simp add: processGauges_def render_eval)

text \<open>
  C9, amended: the gauges emitter writes, for every gauge \<open>(g, c)\<close>, the line
  \<open>g c now\<close> with \<open>c\<close> under \<open>%f\<close>, and that is a fixed six-decimal number: an integer
  part, a point, and exactly six digits.
\<close>

theorem gauge_line_six_decimals:
  "fst (snd (processGauges buffer now st)) =
     buffer @ map (\<lambda>(g, c). \<lparr>name = g, arg = F c, stamp = now\<rparr>) (gauges st)
   \<and> (\<exists>ip fp. render \<lparr>name = g, arg = F c, stamp = now\<rparr> =
          g @ '' '' @ ip @ ''.'' @ fp @ '' '' @ dec_int (sint now) @ [CHR 0x0A]
        \<and> length fp = 6 \<and> set fp \<subseteq> set ''0123456789'' \<and> CHR ''.'' \<notin> set ip)"
proof -
  obtain ip fp where "format_f 6 c = ip @ ''.'' @ fp" "length fp = 6"
    "set fp \<subseteq> set ''0123456789''" "CHR ''.'' \<notin> set ip"
    using format_f_6_shape [of c] by blast
  then have "\<exists>ip fp. render \<lparr>name = g, arg = F c, stamp = now\<rparr> =
          g @ '' '' @ ip @ ''.'' @ fp @ '' '' @ dec_int (sint now) @ [CHR 0x0A]
        \<and> length fp = 6 \<and> set fp \<subseteq> set ''0123456789'' \<and> CHR ''.'' \<notin> set ip"
    by (intro exI [of _ ip] exI [of _ fp]) (simp add: render_def)
  then show ?thesis
    by (simp add: processGauges_def gauges_loop_buffer)
qed

section \<open>Timer lines\<close>

text \<open>
  C1, as stated: for more than one sample and \<open>P \<ge> 0\<close> the line \<open>upper_<P>\<close> carries
  \<open>sorted(S)[floor(P/100 * |S| + 0.5) - 1]\<close>. The emitter computes the index in float64.
  For \<open>P = 58\<close> and the 25 samples 1, 2, .., 25 the quotient \<open>58 / 100.0\<close> is the float64
  just below 0.58, its product with 25 the float64 just below 14.5, and the index 13, so the
  line carries 14; \<open>floor(58/100 * 25 + 0.5) - 1\<close> is 14, and \<open>sorted(S)[14]\<close> is 15.
\<close>

theorem percentile_value_counterexample:
  "processTimers [] 5 [\<lparr>float = 58, str = ''58''\<rparr>]
     \<lparr>counters = [], gauges = [],
      timers = [(''stats.timers.lat'',
        [1, 2, 3, 4, 5, 6, 7, 8, 9, 10, 11, 12, 13, 14, 15, 16, 17, 18, 19, 20, 21, 22, 23, 24, 25])],
      countInactivity = [], sets = []\<rparr>
   = Inr (1,
       [\<lparr>name = ''stats.timers.lat.upper_58'', arg = F2 14, stamp = 5\<rparr>,
        \<lparr>name = ''stats.timers.lat.mean'', arg = F2 13, stamp = 5\<rparr>,
        \<lparr>name = ''stats.timers.lat.median'', arg = F2 13, stamp = 5\<rparr>,
        \<lparr>name = ''stats.timers.lat.upper'', arg = F2 25, stamp = 5\<rparr>,
        \<lparr>name = ''stats.timers.lat.lower'', arg = F2 1, stamp = 5\<rparr>,
        \<lparr>name = ''stats.timers.lat.count'', arg = D 25, stamp = 5\<rparr>],
       \<lparr>counters = [], gauges = [], timers = [], countInactivity = [], sets = []\<rparr>)
   \<and> sort [1, 2, 3, 4, 5, 6, 7, 8, 9, 10, 11, 12, 13, 14, 15, 16, 17, 18, 19, 20, 21, 22, 23, 24, 25]
       ! nat (\<lfloor>58 / 100 * real 25 + 1 / 2\<rfloor> - 1) = (15::real)"
  by (simp add: processTimers_def timer_bucket_def index_def indexOfPerc_58_25
      rank_converts_58_25 finite64_def)

text \<open>
  C1, amended. At a flush that the emitter gets through (every bucket has a sample, its
  running float64 sum stays finite, and for every configured percentile the rank converts to
  an \<open>int\<close>, the index is one of the slice and a negative percentile has a text to cut
  the sign from), for every timer bucket \<open>u\<close> with samples \<open>S\<close> and every configured
  percentile \<open>P\<close> the emitter writes the line \<open>u.upper_<P>\<close> (for \<open>P \<ge> 0\<close>) or
  \<open>u.lower_<P without its sign>\<close> (for \<open>P < 0\<close>) whose value is: for \<open>|S| > 1\<close> and
  \<open>P \<ge> 0\<close>, \<open>sorted(S)[floor((P/100) * |S| + 0.5) - 1]\<close>; for \<open>|S| > 1\<close> and
  \<open>P < 0\<close>, \<open>sorted(S)[floor(((100+P)/100) * |S| + 0.5)]\<close>, with no decrement; in both
  the sum \<open>100 + P\<close>, the quotient, the product and the sum with 0.5 are each rounded to
  float64 before the floor is taken; for \<open>|S| \<le> 1\<close>, \<open>max(S)\<close>.
\<close>

theorem percentile_value_emitted:
  assumes "(u, t0) \<in> set (timers st)" and "pct \<in> set pctls"
    and "\<forall>(u, t0)\<in>set (timers st). bucket_passes pctls t0"
  shows "\<exists>num buffer1 st1. processTimers buffer now pctls st = Inr (num, buffer1, st1) \<and>
     \<lparr>name = u @ (if 0 \<le> float pct then ''.upper_'' @ str pct else ''.lower_'' @ tl (str pct)),
      arg = F2 (if 1 < length t0
                then if 0 \<le> float pct
                     then sort t0 ! nat (\<lfloor>float64 (float64 (float64 (float pct / 100)
                              * float64 (real (length t0))) + 1 / 2)\<rfloor> - 1)
                     else sort t0 ! nat \<lfloor>float64 (float64 (float64 (float64 (100 + float pct) / 100)
                              * float64 (real (length t0))) + 1 / 2)\<rfloor>
                else Max (set t0)),
      stamp = now\<rparr> \<in> set buffer1"
proof -
  let ?l = "percentile_line now u (sort t0) pct"
  from assms(1,3) have n: "t0 \<noteq> []" by (auto simp: bucket_passes_def)
  then have "sort t0 \<noteq> []" by (metis length_sort length_0_conv)
  then have la: "last (sort t0) = Max (set t0)"
    using sorted_last_Max [of "sort t0"] by simp
  have "?l \<in> set (bucket_lines now pctls u t0)"
    using assms(2) by (simp add: bucket_lines_def)
  with assms(1) have "?l \<in> set (concat (map (\<lambda>(u, t0). bucket_lines now pctls u t0) (timers st)))"
    by force
  moreover have "?l =
     \<lparr>name = u @ (if 0 \<le> float pct then ''.upper_'' @ str pct else ''.lower_'' @ tl (str pct)),
      arg = F2 (if 1 < length t0
                then if 0 \<le> float pct
                     then sort t0 ! nat (\<lfloor>float64 (float64 (float64 (float pct / 100)
                              * float64 (real (length t0))) + 1 / 2)\<rfloor> - 1)
                     else sort t0 ! nat \<lfloor>float64 (float64 (float64 (float64 (100 + float pct) / 100)
                              * float64 (real (length t0))) + 1 / 2)\<rfloor>
                else Max (set t0)),
      stamp = now\<rparr>"
    by (simp add: percentile_line_def indexOfPerc_def rank_def la)
  ultimately show ?thesis
    by (simp add: processTimers_def timers_loop_passes [OF assms(3)])
qed

theorem percentile_value_emitted_witness:
  "\<exists>num buffer1 st1.
     processTimers [] 5 [\<lparr>float = 58, str = ''58''\<rparr>, \<lparr>float = - 50, str = ''-50''\<rparr>]
       \<lparr>counters = [], gauges = [],
        timers = [(''stats.timers.lat'',
          [25, 24, 23, 22, 21, 20, 19, 18, 17, 16, 15, 14, 13, 12, 11, 10, 9, 8, 7, 6, 5, 4, 3, 2, 1])],
        countInactivity = [], sets = []\<rparr> = Inr (num, buffer1, st1) \<and>
     \<lparr>name = ''stats.timers.lat.upper_58'', arg = F2 14, stamp = 5\<rparr> \<in> set buffer1"
  using percentile_value_emitted [of "''stats.timers.lat''"
      "[25, 24, 23, 22, 21, 20, 19, 18, 17, 16, 15, 14, 13, 12, 11, 10, 9, 8, 7, 6, 5, 4, 3, 2, 1]"
      "\<lparr>counters = [], gauges = [],
        timers = [(''stats.timers.lat'',
          [25, 24, 23, 22, 21, 20, 19, 18, 17, 16, 15, 14, 13, 12, 11, 10, 9, 8, 7, 6, 5, 4, 3, 2, 1])],
        countInactivity = [], sets = []\<rparr>"
      "\<lparr>float = 58, str = ''58''\<rparr>"
      "[\<lparr>float = 58, str = ''58''\<rparr>, \<lparr>float = - 50, str = ''-50''\<rparr>]" "[]" 5]
  by (simp add: bucket_passes_def pctl_in_range_def indexOfPerc_58_25 rank_converts_58_25
      finite64_def float64_29_50 float64_58_25 float64_58_25_half indexOfPerc_def
      rank_converts_def rank_def)

text \<open>
  C4, as stated: the line \<open>mean\<close> carries the arithmetic mean of the samples. The emitter
  adds the sorted samples in float64, one at a time, and divides in float64. For the samples
  1 and \<open>2^53 = 9007199254740992\<close> the sum \<open>2^53 + 1\<close> is halfway between two float64 and
  rounds to \<open>2^53\<close>, so the line carries 4503599627370496; the arithmetic mean is
  4503599627370496.5.
\<close>

theorem timer_mean_counterexample:
  "processTimers [] 5 []
     \<lparr>counters = [], gauges = [], timers = [(''stats.timers.lat'', [1, 9007199254740992])],
      countInactivity = [], sets = []\<rparr>
   = Inr (1,
       [\<lparr>name = ''stats.timers.lat.mean'', arg = F2 4503599627370496, stamp = 5\<rparr>,
        \<lparr>name = ''stats.timers.lat.median'', arg = F2 9007199254740992, stamp = 5\<rparr>,
        \<lparr>name = ''stats.timers.lat.upper'', arg = F2 9007199254740992, stamp = 5\<rparr>,
        \<lparr>name = ''stats.timers.lat.lower'', arg = F2 1, stamp = 5\<rparr>,
        \<lparr>name = ''stats.timers.lat.count'', arg = D 2, stamp = 5\<rparr>],
       \<lparr>counters = [], gauges = [], timers = [], countInactivity = [], sets = []\<rparr>)
   \<and> sum_list [1, 9007199254740992] / real (length [1, 9007199254740992 :: real])
       \<noteq> (4503599627370496::real)"
  by (simp add: processTimers_def timer_bucket_def index_def finite64_def float64_tie
      float64_2_53)

text \<open>
  C4, amended. At a flush that the emitter gets through (as for C1), for every timer bucket
  \<open>u\<close> with samples \<open>S\<close> the emitter writes \<open>u.upper\<close> = max(S), \<open>u.lower\<close> = min(S),
  \<open>u.count\<close> = |S|, \<open>u.median\<close> = \<open>sorted(S)[|S| div 2]\<close>, and \<open>u.mean\<close> = the float64
  quotient of the float64 sum of the samples, added one at a time in ascending order from 0,
  by \<open>|S|\<close>; afterwards the timers table holds no bucket.
\<close>

theorem timer_summary_emitted:
  assumes "(u, t0) \<in> set (timers st)"
    and "\<forall>(u, t0)\<in>set (timers st). bucket_passes pctls t0"
  shows "\<exists>num buffer1 st1. processTimers buffer now pctls st = Inr (num, buffer1, st1) \<and>
     \<lparr>name = u @ ''.upper'', arg = F2 (Max (set t0)), stamp = now\<rparr> \<in> set buffer1 \<and>
     \<lparr>name = u @ ''.lower'', arg = F2 (Min (set t0)), stamp = now\<rparr> \<in> set buffer1 \<and>
     \<lparr>name = u @ ''.count'', arg = D (int (length t0)), stamp = now\<rparr> \<in> set buffer1 \<and>
     \<lparr>name = u @ ''.mean'',
      arg = F2 (float64 (foldl (\<lambda>s v. float64 (s + v)) 0 (sort t0) / float64 (real (length t0)))),
      stamp = now\<rparr> \<in> set buffer1 \<and>
     \<lparr>name = u @ ''.median'', arg = F2 (sort t0 ! (length t0 div 2)), stamp = now\<rparr> \<in> set buffer1 \<and>
     timers st1 = []"
proof -
  have "set (summary_lines now u t0) \<subseteq> set (bucket_lines now pctls u t0)"
    by (simp add: bucket_lines_def)
  with assms(1) have "set (summary_lines now u t0)
      \<subseteq> set (concat (map (\<lambda>(u, t0). bucket_lines now pctls u t0) (timers st)))"
    by force
  then show ?thesis
    by (simp add: processTimers_def timers_loop_passes [OF assms(2)] summary_lines_def
        float_sum_def fold_delete_self)
qed

theorem timer_summary_emitted_witness:
  "\<exists>num buffer1 st1.
     processTimers [] 5 [\<lparr>float = 50, str = ''50''\<rparr>]
       \<lparr>counters = [], gauges = [],
        timers = [(''stats.timers.lat'', [9007199254740992, 1])],
        countInactivity = [], sets = []\<rparr> = Inr (num, buffer1, st1) \<and>
     \<lparr>name = ''stats.timers.lat.upper'', arg = F2 9007199254740992, stamp = 5\<rparr> \<in> set buffer1 \<and>
     \<lparr>name = ''stats.timers.lat.lower'', arg = F2 1, stamp = 5\<rparr> \<in> set buffer1 \<and>
     \<lparr>name = ''stats.timers.lat.count'', arg = D 2, stamp = 5\<rparr> \<in> set buffer1 \<and>
     \<lparr>name = ''stats.timers.lat.mean'', arg = F2 4503599627370496, stamp = 5\<rparr> \<in> set buffer1 \<and>
     \<lparr>name = ''stats.timers.lat.median'', arg = F2 9007199254740992, stamp = 5\<rparr> \<in> set buffer1 \<and>
     timers st1 = []"
  using timer_summary_emitted [of "''stats.timers.lat''" "[9007199254740992, 1]"
      "\<lparr>counters = [], gauges = [],
        timers = [(''stats.timers.lat'', [9007199254740992, 1])],
        countInactivity = [], sets = []\<rparr>"
      "[\<lparr>float = 50, str = ''50''\<rparr>]" "[]" 5]
  by (simp add: bucket_passes_def pctl_in_range_def indexOfPerc_def rank_converts_def rank_def
      finite64_def float64_2_53 float64_tie)

text \<open>
  C10. The percentile index is not always within \<open>[0, n-1]\<close>. The flag documents the
  range 0-100; with the percentile 0 and a bucket of two samples the index is \<open>-1\<close>, and
  with the percentile \<open>-25\<close> it is 2, the length of the slice. Either access panics.
\<close>

theorem percentile_index_out_of_range:
  "indexOfPerc 0 2 = - 1
   \<and> processTimers [] 5 [\<lparr>float = 0, str = ''0''\<rparr>]
       \<lparr>counters = [], gauges = [], timers = [(''stats.timers.lat'', [100, 200])],
        countInactivity = [], sets = []\<rparr> = Inl IndexOutOfRange
   \<and> indexOfPerc (- 25) 2 = 2
   \<and> processTimers [] 5 [\<lparr>float = - 25, str = ''-25''\<rparr>]
       \<lparr>counters = [], gauges = [], timers = [(''stats.timers.lat'', [100, 200])],
        countInactivity = [], sets = []\<rparr> = Inl IndexOutOfRange"
  by (simp add: indexOfPerc_def rank_def rank_converts_def finite64_def processTimers_def
      timer_bucket_def index_def)

section \<open>Counters\<close>

text \<open>
  C2, as stated: the value emitted for a counter bucket is the sum of \<open>trunc(d_i / r_i)\<close>.
  The increment is computed in floating point: a single event with delta
  \<open>2^53 + 1 = 9007199254740993\<close> and rate 1 is emitted as \<open>9007199254740992\<close>, because
  \<open>float64(d)\<close> rounds the delta.
\<close>

theorem counter_sum_counterexample:
  "run default_flags amd64
     [Apply \<lparr>Bucket = ''stats.foo'', Value = VInt64 9007199254740993, Modifier = ''c'',
             Sampling = 1\<rparr>,
      Flush 5] empty_tables
     = Inr ([[\<lparr>name = ''stats.foo'', arg = D 9007199254740992, stamp = 5\<rparr>]],
            empty_tables\<lparr>countInactivity := [(''stats.foo'', 1)]\<rparr>)
   \<and> trunc (9007199254740993 / 1) \<noteq> 9007199254740992"
  by (simp add: default_flags_def empty_tables_def packetHandler_def count_received_def
      lookup0_def counter_delta_def float64_tie float64_2_53 trunc_def processCounters_def
      word_sless_alt)

text \<open>
  C2, amended: for a counter bucket \<open>b\<close> (not the receive-counter bucket) that is absent
  when the window begins and then receives counter events with deltas \<open>d_i\<close> and sampling
  rates \<open>r_i\<close>, the next flush emits for \<open>b\<close> exactly one line, whose value is the
  \<open>int64\<close> sum (with wrap-around) of the increments
  \<open>int64(float64(d_i) * float64(1/r_i))\<close> as Go computes them. At rate 1 the increment
  of a delta \<open>d\<close> with \<open>|d| < 2^53\<close> is \<open>d\<close> itself.
\<close>

theorem counter_sum_emitted:
  assumes "distinct (map fst (counters st))" and "distinct (map fst (countInactivity st))"
    and "map_of (counters st) b = None"
    and "\<not> (receiveCounter cfg = b \<and> b \<noteq> [])"
    and "\<forall>s\<in>set ps. well_typed s"
    and "counter_events b ps \<noteq> []"
  shows "\<exists>buffer st1. run cfg oor (map Apply ps @ [Flush now]) st = Inr ([buffer], st1) \<and>
     lines_for b buffer =
       [\<lparr>name = b,
         arg = D (sint (sum_list (map (\<lambda>(d, r). counter_delta oor d r) (counter_events b ps)))),
         stamp = now\<rparr>] \<and>
     (\<bar>sint d0\<bar> < 2 ^ 53 \<longrightarrow> counter_delta oor d0 1 = d0)"
proof -
  from run_applies [OF assms(5,4,1), of oor "[Flush now]"] assms(3,6)
  obtain st1 where r: "run cfg oor (map Apply ps @ [Flush now]) st = run cfg oor [Flush now] st1"
    and d: "distinct (map fst (counters st1))"
    and ci: "countInactivity st1 = countInactivity st"
    and c: "map_of (counters st1) b =
       Some (sum_list (map (\<lambda>(d, r). counter_delta oor d r) (counter_events b ps)))"
    by (auto simp: lookup0_def)
  obtain num buffer st2 where pc: "processCounters cfg [] now st1 = (num, buffer, st2)"
    by (cases "processCounters cfg [] now st1")
  have "lines_for b buffer =
       [\<lparr>name = b,
         arg = D (sint (sum_list (map (\<lambda>(d, r). counter_delta oor d r) (counter_events b ps)))),
         stamp = now\<rparr>]"
    using processCounters_lines [OF d, of b cfg "[]" now] assms(2) ci c pc by simp
  with r pc show ?thesis by (simp add: counter_delta_rate_one)
qed

theorem counter_sum_emitted_witness:
  "\<exists>buffer st1.
     run default_flags amd64
       [Apply \<lparr>Bucket = ''stats.foo'', Value = VInt64 1, Modifier = ''c'', Sampling = 1\<rparr>,
        Apply \<lparr>Bucket = ''stats.foo'', Value = VInt64 2, Modifier = ''c'', Sampling = 1 / 2\<rparr>,
        Flush 5] empty_tables = Inr ([buffer], st1) \<and>
     lines_for ''stats.foo'' buffer = [\<lparr>name = ''stats.foo'', arg = D 5, stamp = 5\<rparr>] \<and>
     counter_delta amd64 7 1 = 7"
  using counter_sum_emitted [of empty_tables "''stats.foo''" default_flags
      "[\<lparr>Bucket = ''stats.foo'', Value = VInt64 1, Modifier = ''c'', Sampling = 1\<rparr>,
        \<lparr>Bucket = ''stats.foo'', Value = VInt64 2, Modifier = ''c'', Sampling = 1 / 2\<rparr>]"
      amd64 5 7]
  by (simp add: default_flags_def empty_tables_def well_typed_def counter_delta_def trunc_def)

text \<open>
  C3. A counter bucket \<open>b\<close> that is live at a flush is emitted there with its value; if no
  packet writes to its counter afterwards, processCounters emits the line \<open>b 0 now\<close> at
  each of the next persistCountKeys flushes and no line for \<open>b\<close> at any later flush, and
  once persistCountKeys flushes have passed countInactivity has no entry for \<open>b\<close>.
  (persistCountKeys is a count: not negative, and less than the largest \<open>int64\<close>.)
\<close>

theorem quiet_counter_zero_fill:
  assumes "distinct (map fst (counters st))" and "distinct (map fst (countInactivity st))"
    and "map_of (counters st) b = Some v"
    and "\<forall>s\<in>set (applied acts). well_typed s \<and> \<not> counter_event cfg b s"
    and "0 \<le> sint (persistCountKeys cfg)" and "sint (persistCountKeys cfg) < 2 ^ 63 - 1"
  shows "\<exists>outs st1. run cfg oor (Flush now0 # acts) st = Inr (outs, st1) \<and>
     map (lines_for b) outs =
       [\<lparr>name = b, arg = D (sint v), stamp = now0\<rparr>] #
       map (\<lambda>now. [\<lparr>name = b, arg = D 0, stamp = now\<rparr>])
         (take (nat (sint (persistCountKeys cfg))) (flush_times acts)) @
       replicate (length (flush_times acts) - nat (sint (persistCountKeys cfg))) [] \<and>
     (nat (sint (persistCountKeys cfg)) \<le> length (flush_times acts) \<longrightarrow>
        map_of (countInactivity st1) b = None)"
proof -
  let ?P = "nat (sint (persistCountKeys cfg))"
  obtain num buffer st1 where pc: "processCounters cfg [] now0 st = (num, buffer, st1)"
    by (cases "processCounters cfg [] now0 st")
  have l: "lines_for b buffer = [\<lparr>name = b, arg = D (sint v), stamp = now0\<rparr>]"
    using processCounters_lines [OF assms(1,2), of b cfg "[]" now0] pc assms(3) by simp
  have t: "map_of (countInactivity st1) b = tick cfg 0"
    using processCounters_ticker [OF assms(2), of cfg "[]" now0 b] pc assms(3) by simp
  have z: "zeros_left cfg st1 b ?P"
    using assms(5) by (auto simp: zeros_left_def t tick_def word_sless_alt)
  have d1: "distinct (map fst (counters st1))"
    using processCounters_counters [of cfg "[]" now0 st] pc by simp
  have d2: "distinct (map fst (countInactivity st1))"
    using processCounters_distinct [OF assms(2), of cfg "[]" now0] pc by simp
  have c1: "map_of (counters st1) b = None"
    using processCounters_counters [of cfg "[]" now0 st] pc by simp
  from run_quiet [OF assms(6,4) d1 d2 c1 z, of oor]
  obtain outs st2 where r: "run cfg oor acts st1 = Inr (outs, st2)"
    and o: "map (lines_for b) outs =
       map (\<lambda>now. [\<lparr>name = b, arg = D 0, stamp = now\<rparr>]) (take ?P (flush_times acts)) @
       replicate (length (flush_times acts) - ?P) []"
    and z2: "zeros_left cfg st2 b (?P - length (flush_times acts))"
    by blast
  have "?P \<le> length (flush_times acts) \<longrightarrow> map_of (countInactivity st2) b = None"
    using z2 by (auto simp: zeros_left_def split: option.splits)
  with pc r o l show ?thesis by simp
qed

theorem quiet_counter_zero_fill_witness:
  "\<exists>outs st1.
     run (default_flags\<lparr>persistCountKeys := 2\<rparr>) amd64
       [Flush 10, Flush 20,
        Apply \<lparr>Bucket = ''stats.other'', Value = VInt64 1, Modifier = ''c'', Sampling = 1\<rparr>,
        Flush 30, Flush 40]
       (empty_tables\<lparr>counters := [(''stats.c'', 7)]\<rparr>) = Inr (outs, st1) \<and>
     map (lines_for ''stats.c'') outs =
       [[\<lparr>name = ''stats.c'', arg = D 7, stamp = 10\<rparr>],
        [\<lparr>name = ''stats.c'', arg = D 0, stamp = 20\<rparr>],
        [\<lparr>name = ''stats.c'', arg = D 0, stamp = 30\<rparr>],
        []] \<and>
     map_of (countInactivity st1) ''stats.c'' = None"
  using quiet_counter_zero_fill [of "empty_tables\<lparr>counters := [(''stats.c'', 7)]\<rparr>" "''stats.c''" 7
      "[Flush 20,
        Apply \<lparr>Bucket = ''stats.other'', Value = VInt64 1, Modifier = ''c'', Sampling = 1\<rparr>,
        Flush 30, Flush 40]"
      "default_flags\<lparr>persistCountKeys := 2\<rparr>" amd64 10]
  by (simp add: default_flags_def empty_tables_def well_typed_def counter_event_def)

section \<open>Gauges\<close>

text \<open>
  C5, as stated: after any sequence of relative-negative deltas \<open>d_1..d_n\<close> the stored
  gauge is \<open>max(0, v0 - d_1 - ... - d_n)\<close>. The handler clamps after every delta, not once
  at the end, and a magnitude can be negative: the lines \<open>g:-5|g\<close> and \<open>g:--5|g\<close> parse
  to the magnitudes 5 and -5, and leave the gauge at 5, not at \<open>max(0, 0 - 5 + 5) = 0\<close>.
  And the handler subtracts in float64: a gauge of \<open>10^16\<close> less 1 is \<open>10^16\<close> again,
  not 9999999999999999.
\<close>

theorem gauge_clamp_counterexample:
  "parseMessage default_flags decimal_strconv (''g:-5|g'' @ [CHR 0x0A] @ ''g:--5|g'')
     = Inr [gauge_sub ''stats.gauges.g'' 5, gauge_sub ''stats.gauges.g'' (- 5)]
   \<and> run default_flags amd64
       [Apply (gauge_sub ''stats.gauges.g'' 5), Apply (gauge_sub ''stats.gauges.g'' (- 5))]
       empty_tables
     = Inr ([], empty_tables\<lparr>gauges := [(''stats.gauges.g'', 5)]\<rparr>)
   \<and> max 0 (0 - 5 - (- 5)) \<noteq> (5::real)
   \<and> run default_flags amd64 [Apply (gauge_sub ''stats.gauges.g'' 1)]
       (empty_tables\<lparr>gauges := [(''stats.gauges.g'', 10000000000000000)]\<rparr>)
     = Inr ([], empty_tables\<lparr>gauges := [(''stats.gauges.g'', 10000000000000000)]\<rparr>)
   \<and> max 0 (10000000000000000 - 1) \<noteq> (10000000000000000::real)"
  by (simp add: parse_eval gauge_sub_def packetHandler_def count_received_def apply_gauge_def
      lookup0_def empty_tables_def float64_10_16)

text \<open>
  C5, amended: for every gauge bucket and every non-empty sequence of relative-negative
  deltas whose magnitudes \<open>d_1..d_n\<close> are not negative, applied to the stored value \<open>v0\<close>
  (0 when the bucket is absent), the stored value afterwards is \<open>max(0, a_n)\<close>, where
  \<open>a_0 = v0\<close> and \<open>a_i\<close> is the float64 nearest to \<open>a_(i-1) - d_i\<close>: the deltas
  accumulated by float64 subtraction, one at a time, and the final accumulator clamped at 0.
\<close>

theorem gauge_clamp_nonnegative:
  assumes "ds \<noteq> []" and "\<forall>d\<in>set ds. 0 \<le> d"
  shows "\<exists>st1. run cfg oor (map (\<lambda>d. Apply (gauge_sub b d)) ds) st = Inr ([], st1) \<and>
     map_of (gauges st1) b =
       Some (max 0 (foldl (\<lambda>a d. float64 (a - d)) (lookup0 (gauges st) b) ds))"
  using assms by (intro run_gauge_sub) simp_all

theorem gauge_clamp_nonnegative_witness:
  "\<exists>st1. run default_flags amd64
       [Apply (gauge_sub ''stats.gauges.g'' 1), Apply (gauge_sub ''stats.gauges.g'' 1)]
       (empty_tables\<lparr>gauges := [(''stats.gauges.g'', 10000000000000000)]\<rparr>) = Inr ([], st1) \<and>
     map_of (gauges st1) ''stats.gauges.g'' = Some 10000000000000000"
  using gauge_clamp_nonnegative [of "[1, 1]" default_flags amd64 "''stats.gauges.g''"
      "empty_tables\<lparr>gauges := [(''stats.gauges.g'', 10000000000000000)]\<rparr>"]
  by (simp add: lookup0_def empty_tables_def float64_10_16)

section \<open>The type indicator\<close>

text \<open>
  C6. A line whose type indicator is none of \<open>c\<close>, \<open>g\<close>, \<open>s\<close>, \<open>ms\<close> is not always
  rejected. An \<open>m\<close> that is not followed by \<open>s\<close> is; any other byte falls into the
  branch written for timers, so \<open>a:1|x\<close> yields a packet with modifier \<open>x\<close> and the
  float 1. Parsing does continue with the next line.
\<close>

theorem unknown_type_accepted:
  "parseMessage default_flags decimal_strconv (''a:1|x'' @ [CHR 0x0A] @ ''b:2|c'')
     = Inr [\<lparr>Bucket = ''stats.a'', Value = VFloat64 1, Modifier = ''x'', Sampling = 1\<rparr>,
            \<lparr>Bucket = ''stats.b'', Value = VInt64 2, Modifier = ''c'', Sampling = 1\<rparr>]
   \<and> parseMessage default_flags decimal_strconv (''a:1|mx'' @ [CHR 0x0A] @ ''b:2|c'')
     = Inr [\<lparr>Bucket = ''stats.b'', Value = VInt64 2, Modifier = ''c'', Sampling = 1\<rparr>]"
  by (simp add: parse_eval)

end
